theory Spec2Isabelle
  imports Main "HOL-Library.Sublist"
begin

section \<open>Strings and code units\<close>

text \<open>
  The program is \<^verbatim>\<open>lib/core/utils/filter-html-attrs.js\<close>. A JavaScript string is a
  sequence of UTF-16 code units. The model works on strings whose code units lie in
  U+0000..U+00FF, one \<^typ>\<open>char\<close> per code unit, and gives the character classes of the
  two regular expressions and of \<^verbatim>\<open>trim\<close> and \<^verbatim>\<open>toLowerCase\<close> on that range.
\<close>

definition isSpace :: "char \<Rightarrow> bool" where
  \<comment> \<open>the class \<^verbatim>\<open>\s\<close>, which is also what \<^verbatim>\<open>trim()\<close> strips: TAB, LF, VT, FF, CR, SP, NBSP\<close>
  "isSpace c = (c \<in> set [CHR 0x09, CHR 0x0A, CHR 0x0B, CHR 0x0C, CHR 0x0D, CHR 0x20, CHR 0xA0])"

definition isWordChar :: "char \<Rightarrow> bool" where
  \<comment> \<open>the class \<^verbatim>\<open>\w\<close> that decides \<^verbatim>\<open>\b\<close>: ASCII letters, digits and the underscore\<close>
  "isWordChar c =
     (let n = (of_char c :: nat)
      in (48 \<le> n \<and> n \<le> 57) \<or> (65 \<le> n \<and> n \<le> 90) \<or> n = 95 \<or> (97 \<le> n \<and> n \<le> 122))"

definition toLowerChar :: "char \<Rightarrow> char" where
  "toLowerChar c =
     (let n = (of_char c :: nat)
      in if (65 \<le> n \<and> n \<le> 90) \<or> (192 \<le> n \<and> n \<le> 222 \<and> n \<noteq> 215)
         then char_of (n + 32) else c)"

definition toLowerCase :: "string \<Rightarrow> string" where
  "toLowerCase s = map toLowerChar s"

definition trim :: "string \<Rightarrow> string" where
  "trim s = rev (dropWhile isSpace (rev (dropWhile isSpace s)))"

fun join :: "string list \<Rightarrow> string" where
  \<comment> \<open>\<^verbatim>\<open>Array.prototype.join(' ')\<close> on an array of strings\<close>
  "join [] = []"
| "join [x] = x"
| "join (x # y # ys) = x @ CHR '' '' # join (y # ys)"

subsection \<open>String.prototype.replace with a string pattern\<close>

fun indexOf :: "string \<Rightarrow> string \<Rightarrow> (string \<times> string) option" where
  \<comment> \<open>the first occurrence of the pattern, as the text before it and the text after it\<close>
  "indexOf pat [] = (if pat = [] then Some ([], []) else None)"
| "indexOf pat (c # cs) =
     (if prefix pat (c # cs) then Some ([], drop (length pat) (c # cs))
      else map_option (\<lambda>(b, a). (c # b, a)) (indexOf pat cs))"

fun getSubstitution :: "string \<Rightarrow> string \<Rightarrow> string \<Rightarrow> string \<Rightarrow> string" where
  \<comment> \<open>the replacement text is a template: \<^verbatim>\<open>$$\<close> is a dollar sign, \<^verbatim>\<open>$&\<close> the matched text,
      \<^verbatim>\<open>$`\<close> the text before the match and \<^verbatim>\<open>$'\<close> the text after it; a string pattern has
      no capture groups, so every other dollar sign stands for itself\<close>
  "getSubstitution pre matched post [] = []"
| "getSubstitution pre matched post [c] = [c]"
| "getSubstitution pre matched post (c # d # r) =
     (if c = CHR ''$'' \<and> d = CHR ''$'' then CHR ''$'' # getSubstitution pre matched post r
      else if c = CHR ''$'' \<and> d = CHR ''&'' then matched @ getSubstitution pre matched post r
      else if c = CHR ''$'' \<and> d = CHR 0x60 then pre @ getSubstitution pre matched post r
      else if c = CHR ''$'' \<and> d = CHR 0x27 then post @ getSubstitution pre matched post r
      else c # getSubstitution pre matched post (d # r))"

definition replace :: "string \<Rightarrow> string \<Rightarrow> string \<Rightarrow> string" where
  \<comment> \<open>\<^verbatim>\<open>s.replace(pat, rep)\<close>: only the first occurrence is replaced\<close>
  "replace s pat rep =
     (case indexOf pat s of
        None \<Rightarrow> s
      | Some (pre, post) \<Rightarrow> pre @ getSubstitution pre pat post rep @ post)"

section \<open>JavaScript values\<close>

text \<open>
  A matcher and the rule set are arbitrary JavaScript values. An object is the list of
  its own enumerable string-keyed properties in the order of \<^verbatim>\<open>Object.keys\<close>, and a read
  of a value's property is a read of its own properties (of a plain object, an array or a
  string). The program reads a matcher at \<^verbatim>\<open>nodeName\<close>, at \<^verbatim>\<open>attributes\<close> and at own keys,
  and the rule set at keys that are never names of members of \<^verbatim>\<open>Object.prototype\<close> (see
  \<^verbatim>\<open>ruleKey\<close> below), so inherited members play no part there; the one read that does
  reach them, \<^verbatim>\<open>attrMap[name]\<close>, is modelled with them. A function value has no readable
  properties in the model, so a rule set that is itself a function lies outside it; as a
  matcher a function is never read. A number is modelled by an integer: only whether it
  is zero matters to the program.
\<close>

datatype jsval =
    JUndefined
  | JNull
  | JBool bool
  | JNum int
  | JStr string
  | JArr "jsval list"
  | JObj "(string \<times> jsval) list"
  | JFunc

datatype error = TypeError

fun truthy :: "jsval \<Rightarrow> bool" where
  "truthy JUndefined = False"
| "truthy JNull = False"
| "truthy (JBool b) = b"
| "truthy (JNum n) = (n \<noteq> 0)"
| "truthy (JStr s) = (s \<noteq> [])"
| "truthy (JArr xs) = True"
| "truthy (JObj ps) = True"
| "truthy JFunc = True"

fun typeof :: "jsval \<Rightarrow> string" where
  "typeof JUndefined = ''undefined''"
| "typeof JNull = ''object''"
| "typeof (JBool b) = ''boolean''"
| "typeof (JNum n) = ''number''"
| "typeof (JStr s) = ''string''"
| "typeof (JArr xs) = ''object''"
| "typeof (JObj ps) = ''object''"
| "typeof JFunc = ''function''"

fun digits :: "nat \<Rightarrow> string" where
  \<comment> \<open>the decimal numeral of an array index, as a property key\<close>
  "digits n = (if n < 10 then [char_of (48 + n)] else digits (n div 10) @ [char_of (48 + n mod 10)])"

declare digits.simps [simp del]

fun keys :: "jsval \<Rightarrow> string list" where
  \<comment> \<open>\<^verbatim>\<open>Object.keys\<close>; the program calls it on truthy values only\<close>
  "keys (JObj ps) = map fst ps"
| "keys (JArr xs) = map digits [0..<length xs]"
| "keys (JStr s) = map digits [0..<length s]"
| "keys v = []"

fun getProp :: "jsval \<Rightarrow> string \<Rightarrow> jsval" where
  \<comment> \<open>the property read \<^verbatim>\<open>v[k]\<close> on a value that is neither \<^verbatim>\<open>null\<close> nor \<^verbatim>\<open>undefined\<close>\<close>
  "getProp (JObj ps) k = (case map_of ps k of Some v \<Rightarrow> v | None \<Rightarrow> JUndefined)"
| "getProp (JArr xs) k =
     (case find (\<lambda>i. digits i = k) [0..<length xs] of
        Some i \<Rightarrow> xs ! i
      | None \<Rightarrow> if k = ''length'' then JNum (int (length xs)) else JUndefined)"
| "getProp (JStr s) k =
     (case find (\<lambda>i. digits i = k) [0..<length s] of
        Some i \<Rightarrow> JStr [s ! i]
      | None \<Rightarrow> if k = ''length'' then JNum (int (length s)) else JUndefined)"
| "getProp v k = JUndefined"

section \<open>The matcher\<close>

record attribute =
  attr_name :: string
  attr_value :: string
  attr_raw :: string

record element =
  nodeName :: string
  attributes :: "attribute list"
  raw :: string

definition land :: "jsval \<Rightarrow> (error + jsval) \<Rightarrow> error + jsval" where
  \<comment> \<open>\<^verbatim>\<open>a && b\<close>: the right operand is evaluated only when the left one is truthy\<close>
  "land a b = (if truthy a then b else Inr a)"

function matches :: "string \<Rightarrow> attribute list \<Rightarrow> string \<Rightarrow> jsval \<Rightarrow> error + jsval"
  and matches_forEach ::
    "string \<Rightarrow> attribute list \<Rightarrow> jsval \<Rightarrow> string list \<Rightarrow> jsval \<Rightarrow> error + jsval"
where
  \<comment> \<open>The equations of \<^verbatim>\<open>matches\<close> are the cases of \<^verbatim>\<open>switch (typeof matcher)\<close>: \<^verbatim>\<open>boolean\<close>,
      \<^verbatim>\<open>string\<close>, \<^verbatim>\<open>object\<close> (an array, \<^verbatim>\<open>null\<close>, whose property read throws, or any other
      object), and the types with no case, for which the function returns \<^verbatim>\<open>undefined\<close>.
      \<^verbatim>\<open>matches_forEach\<close> is the \<^verbatim>\<open>forEach\<close> over \<^verbatim>\<open>Object.keys(matcher.attributes)\<close>, with the
      variable \<^verbatim>\<open>filter\<close> as accumulator; \<^verbatim>\<open>return false\<close> in its callback only ends that
      iteration.\<close>
  "matches nodeName' attributes' value' (JBool b) = Inr (JBool True)"
| "matches nodeName' attributes' value' (JStr m) = Inr (JBool (m = value'))"
| "matches nodeName' attributes' value' (JArr xs) = Inr (JBool (JStr value' \<in> set xs))"
| "matches nodeName' attributes' value' JNull = Inl TypeError"
| "matches nodeName' attributes' value' (JObj ps) =
     (let filter0 = JBool True;
          filter1 =
            (if truthy (getProp (JObj ps) ''nodeName'')
             then JBool (getProp (JObj ps) ''nodeName'' = JStr nodeName')
             else filter0)
      in if truthy (getProp (JObj ps) ''attributes'')
         then matches_forEach nodeName' attributes' (getProp (JObj ps) ''attributes'')
                (keys (getProp (JObj ps) ''attributes'')) filter1
         else Inr filter1)"
| "matches nodeName' attributes' value' JUndefined = Inr JUndefined"
| "matches nodeName' attributes' value' (JNum n) = Inr JUndefined"
| "matches nodeName' attributes' value' JFunc = Inr JUndefined"
| "matches_forEach nodeName' attributes' obj [] filter' = Inr filter'"
| "matches_forEach nodeName' attributes' obj (attrName # rest) filter' =
     (case find (\<lambda>attr. attr_name attr = attrName) attributes' of
        None \<Rightarrow> matches_forEach nodeName' attributes' obj rest filter'
      | Some attr \<Rightarrow>
          (case land filter' (matches nodeName' attributes' (attr_value attr) (getProp obj attrName)) of
             Inl e \<Rightarrow> Inl e
           | Inr filter'' \<Rightarrow> matches_forEach nodeName' attributes' obj rest filter''))"
  by pat_completeness auto

lemma size_map_of:
  "map_of ps k = Some v \<Longrightarrow> size v < Suc (size_list (size_prod (\<lambda>x. 0) size) ps)"
  by (induction ps) (auto split: if_splits)

lemma size_nth: "i < length xs \<Longrightarrow> size (xs ! i) < Suc (size_list size xs)"
proof (induction xs arbitrary: i)
  case Nil
  then show ?case by simp
next
  case (Cons a xs)
  show ?case
  proof (cases i)
    case 0
    then show ?thesis by simp
  next
    case (Suc j)
    then have "size (xs ! j) < Suc (size_list size xs)" using Cons by simp
    then show ?thesis using Suc by simp
  qed
qed

lemma size_getProp_obj: "size (getProp (JObj ps) k) < size (JObj ps)"
  using size_map_of by (fastforce split: option.splits)

lemma find_upt: "find P [0..<n] = Some i \<Longrightarrow> i < n"
  by (auto simp: find_Some_iff)

lemma size_getProp: "size (getProp v k) \<le> size v"
proof (cases v)
  case (JArr xs)
  show ?thesis
  proof (cases "find (\<lambda>i. digits i = k) [0..<length xs]")
    case None
    then show ?thesis using JArr by simp
  next
    case (Some i)
    then have "i < length xs" by (rule find_upt)
    then have "size (xs ! i) < Suc (size_list size xs)" by (rule size_nth)
    then show ?thesis using JArr Some by simp
  qed
next
  case (JObj ps)
  then show ?thesis using size_getProp_obj [of ps k] by simp
qed (auto split: option.splits)

termination matches
proof (relation "inv_image (less_than <*lex*> less_than)
    (\<lambda>x. case x of Inl (n, a, v, m) \<Rightarrow> (size m, 0)
                  | Inr (n, a, obj, ks, f) \<Rightarrow> (size obj, Suc (length ks)))", goal_cases)
  case 1
  show ?case by (simp add: wf_lex_prod)
next
  case (2 n a v ps)
  show ?case using size_getProp_obj [of ps "''attributes''"] by simp
next
  case (3 n a obj attrName rest f)
  show ?case by simp
next
  case (4 n a obj attrName rest f attr)
  show ?case using size_getProp [of obj attrName] by (auto simp: le_less)
next
  case 5
  show ?case by simp
qed

section \<open>The tokenizer\<close>

subsection \<open>The tag pattern\<close>

fun tagStringRegex_exec :: "string \<Rightarrow> (string \<times> string \<times> string) option" where
  \<comment> \<open>One \<^verbatim>\<open>exec\<close> of \<^verbatim>\<open>/<([^>]+?)\/?>/g\<close> on the unread part of the input: the leftmost
      match, as the matched text, group 1 and the text left to read. At a \<^verbatim>\<open><\<close> the
      pattern matches when a non-empty run of characters other than \<^verbatim>\<open>>\<close> follows and a
      \<^verbatim>\<open>>\<close> ends it. Group 1 is lazy and the slash optional, so a final slash of the run
      is left out of group 1, unless the run is that slash alone.\<close>
  "tagStringRegex_exec [] = None"
| "tagStringRegex_exec (c # cs) =
     (let inner = takeWhile (\<lambda>x. x \<noteq> CHR ''>'') cs;
          rest = dropWhile (\<lambda>x. x \<noteq> CHR ''>'') cs
      in if c = CHR ''<'' \<and> inner \<noteq> [] \<and> rest \<noteq> []
         then Some (c # inner @ ''>'',
                    if 2 \<le> length inner \<and> last inner = CHR ''/'' then butlast inner else inner,
                    tl rest)
         else tagStringRegex_exec cs)"

subsection \<open>The attribute pattern\<close>

record groups =
  group0 :: string
  group1 :: "string option"
  group2 :: "string option"
  group3 :: "string option"
  group4 :: "string option"
  group5 :: "string option"

definition wordBoundary :: "char option \<Rightarrow> string \<Rightarrow> bool" where
  \<comment> \<open>\<^verbatim>\<open>\b\<close> between the previous code unit and the next one; the ends of the string count
      as non-word characters\<close>
  "wordBoundary prev s =
     ((case prev of None \<Rightarrow> False | Some c \<Rightarrow> isWordChar c)
        \<noteq> (case s of [] \<Rightarrow> False | c # _ \<Rightarrow> isWordChar c))"

definition quoted :: "char \<Rightarrow> string \<Rightarrow> string option" where
  \<comment> \<open>\<^verbatim>\<open>"([^"]*)"\<close> or \<^verbatim>\<open>'([^']*)'\<close> at the head of the text: the group, when the quote opens and
      closes\<close>
  "quoted q s =
     (case s of
        [] \<Rightarrow> None
      | c # cs \<Rightarrow>
          if c = q \<and> dropWhile (\<lambda>x. x \<noteq> q) cs \<noteq> [] then Some (takeWhile (\<lambda>x. x \<noteq> q) cs)
          else None)"

definition attributeRegex_at :: "char option \<Rightarrow> string \<Rightarrow> groups option" where
  \<comment> \<open>The attribute pattern tried at one position. First alternative: the longest run of
      \<^verbatim>\<open>[^\s=]\<close>, which must be non-empty and followed by \<^verbatim>\<open>=\<close>, then a double-quoted value,
      else a single-quoted one, else the longest run of \<^verbatim>\<open>[^'"\s]\<close>, which may be empty.
      Second alternative: at a word boundary, the longest non-empty run of \<^verbatim>\<open>\S\<close>; the
      closing \<^verbatim>\<open>(?:\B|\b)\<close> holds at every position.\<close>
  "attributeRegex_at prev s =
     (let nm = takeWhile (\<lambda>c. \<not> isSpace c \<and> c \<noteq> CHR ''='') s;
          bare = takeWhile (\<lambda>c. \<not> isSpace c) s
      in case drop (length nm) s of
           c # v \<Rightarrow>
             if nm \<noteq> [] \<and> c = CHR ''='' then
               (case quoted (CHR 0x22) v of
                  Some d \<Rightarrow>
                    Some \<lparr>group0 = nm @ CHR ''='' # CHR 0x22 # d @ [CHR 0x22], group1 = Some nm,
                          group2 = Some d, group3 = None, group4 = None, group5 = None\<rparr>
                | None \<Rightarrow>
                    (case quoted (CHR 0x27) v of
                       Some q \<Rightarrow>
                         Some \<lparr>group0 = nm @ CHR ''='' # CHR 0x27 # q @ [CHR 0x27], group1 = Some nm,
                               group2 = None, group3 = Some q, group4 = None, group5 = None\<rparr>
                     | None \<Rightarrow>
                         (let u = takeWhile (\<lambda>x. x \<noteq> CHR 0x27 \<and> x \<noteq> CHR 0x22 \<and> \<not> isSpace x) v
                          in Some \<lparr>group0 = nm @ CHR ''='' # u, group1 = Some nm,
                                   group2 = None, group3 = None, group4 = Some u, group5 = None\<rparr>)))
             else if wordBoundary prev s \<and> bare \<noteq> [] then
               Some \<lparr>group0 = bare, group1 = None, group2 = None, group3 = None, group4 = None,
                     group5 = Some bare\<rparr>
             else None
         | [] \<Rightarrow>
             if wordBoundary prev s \<and> bare \<noteq> [] then
               Some \<lparr>group0 = bare, group1 = None, group2 = None, group3 = None, group4 = None,
                     group5 = Some bare\<rparr>
             else None)"

definition lor :: "string option \<Rightarrow> string option \<Rightarrow> string option" where
  \<comment> \<open>\<^verbatim>\<open>a || b\<close> on groups: a group that did not take part is \<^verbatim>\<open>undefined\<close>, and the empty
      string is falsy too\<close>
  "lor a b = (case a of Some (c # cs) \<Rightarrow> a | _ \<Rightarrow> b)"

definition orEmpty :: "string option \<Rightarrow> string" where
  "orEmpty a = (case a of Some s \<Rightarrow> s | None \<Rightarrow> [])"

lemma attributeRegex_at_nonempty: "attributeRegex_at prev s = Some g \<Longrightarrow> group0 g \<noteq> []"
  by (auto simp: attributeRegex_at_def Let_def split: list.splits option.splits if_splits)

function attributeRegex_loop :: "char option \<Rightarrow> string \<Rightarrow> attribute list" where
  \<comment> \<open>\<^verbatim>\<open>while ((groups = attributeRegex.exec(attributeStr)))\<close>: \<^verbatim>\<open>lastIndex\<close> is carried as the
      unread text and the code unit before it\<close>
  "attributeRegex_loop prev [] = []"
| "attributeRegex_loop prev (c # cs) =
     (case attributeRegex_at prev (c # cs) of
        None \<Rightarrow> attributeRegex_loop (Some c) cs
      | Some g \<Rightarrow>
          \<lparr>attr_name = toLowerCase (orEmpty (lor (group1 g) (group5 g))),
           attr_value = orEmpty (lor (lor (lor (group2 g) (group3 g)) (group4 g)) (Some [])),
           attr_raw = group0 g\<rparr>
          # attributeRegex_loop (Some (last (group0 g))) (drop (length (group0 g)) (c # cs)))"
  by pat_completeness auto
termination
proof (relation "measure (\<lambda>(prev, s). length s)", goal_cases)
  case 1
  show ?case by simp
next
  case 2
  show ?case by simp
next
  case (3 prev c cs g)
  then have "group0 g \<noteq> []" by (rule attributeRegex_at_nonempty)
  then show ?case by (cases "group0 g") auto
qed

subsection \<open>parseElements\<close>

lemma tagStringRegex_exec_shorter:
  "tagStringRegex_exec s = Some (m, g, rest) \<Longrightarrow> length rest < length s"
proof (induction s)
  case Nil
  then show ?case by simp
next
  case (Cons c cs)
  show ?case
  proof (cases "c = CHR ''<'' \<and> takeWhile (\<lambda>x. x \<noteq> CHR ''>'') cs \<noteq> []
                  \<and> dropWhile (\<lambda>x. x \<noteq> CHR ''>'') cs \<noteq> []")
    case True
    then have "rest = tl (dropWhile (\<lambda>x. x \<noteq> CHR ''>'') cs)"
      using Cons.prems by (simp add: Let_def)
    moreover have "length (dropWhile (\<lambda>x. x \<noteq> CHR ''>'') cs) \<le> length cs"
      by (rule length_dropWhile_le)
    ultimately show ?thesis by simp
  next
    case False
    then have "tagStringRegex_exec cs = Some (m, g, rest)"
      using Cons.prems by (auto simp: Let_def)
    then show ?thesis using Cons.IH by simp
  qed
qed

function parseElements :: "string \<Rightarrow> element list" where
  "parseElements htmlString =
     (case tagStringRegex_exec htmlString of
        None \<Rightarrow> []
      | Some (match0, tagStr, rest) \<Rightarrow>
          if take 1 tagStr = ''/'' then parseElements rest
          else
            (let index = length (takeWhile (\<lambda>c. c \<noteq> CHR '' '') tagStr);
                 nodeName' = toLowerCase (take index tagStr);
                 attributeStr = trim (drop (index + 1) tagStr);
                 attributes' = attributeRegex_loop None attributeStr
             in \<lparr>nodeName = nodeName', attributes = attributes', raw = match0\<rparr>
                # parseElements rest))"
  by pat_completeness auto
termination
  by (relation "measure length") (auto dest: tagStringRegex_exec_shorter)

declare parseElements.simps [simp del]

section \<open>The filter\<close>

definition attrMap :: "string \<rightharpoonup> string" where
  "attrMap = [''for'' \<mapsto> ''htmlFor'', ''class'' \<mapsto> ''className'']"

definition inheritedKey :: "string \<rightharpoonup> string" where
  \<comment> \<open>\<^verbatim>\<open>attrMap\<close> is an object literal, so the read \<^verbatim>\<open>attrMap[name]\<close> also finds the members
      that the object inherits from \<^verbatim>\<open>Object.prototype\<close>. Each of them is truthy, and used as
      the key of \<^verbatim>\<open>attrs[...]\<close> it is converted to a string: a built-in function to its source
      text (written here as V8 prints it), the prototype object, found under \<^verbatim>\<open>__proto__\<close>,
      to \<^verbatim>\<open>[object Object]\<close>.\<close>
  "inheritedKey =
     [''constructor'' \<mapsto> ''function Object() { [native code] }'',
      ''__proto__'' \<mapsto> ''[object Object]'',
      ''hasOwnProperty'' \<mapsto> ''function hasOwnProperty() { [native code] }'',
      ''isPrototypeOf'' \<mapsto> ''function isPrototypeOf() { [native code] }'',
      ''propertyIsEnumerable'' \<mapsto> ''function propertyIsEnumerable() { [native code] }'',
      ''toLocaleString'' \<mapsto> ''function toLocaleString() { [native code] }'',
      ''toString'' \<mapsto> ''function toString() { [native code] }'',
      ''valueOf'' \<mapsto> ''function valueOf() { [native code] }'',
      ''__defineGetter__'' \<mapsto> ''function __defineGetter__() { [native code] }'',
      ''__defineSetter__'' \<mapsto> ''function __defineSetter__() { [native code] }'',
      ''__lookupGetter__'' \<mapsto> ''function __lookupGetter__() { [native code] }'',
      ''__lookupSetter__'' \<mapsto> ''function __lookupSetter__() { [native code] }'']"

definition ruleKey :: "string \<Rightarrow> string" where
  \<comment> \<open>\<^verbatim>\<open>attrMap[name] ? attrMap[name] : name\<close>, as the key of the read \<^verbatim>\<open>attrs[...]\<close>\<close>
  "ruleKey name' =
     (case attrMap name' of
        Some k \<Rightarrow> if k \<noteq> [] then k else name'
      | None \<Rightarrow> (case inheritedKey name' of Some k \<Rightarrow> k | None \<Rightarrow> name'))"

definition keepAttribute :: "string \<Rightarrow> attribute list \<Rightarrow> jsval \<Rightarrow> attribute \<Rightarrow> error + bool" where
  \<comment> \<open>the callback that \<^verbatim>\<open>filterAttributes\<close> passes to \<^verbatim>\<open>attributes.filter\<close>\<close>
  "keepAttribute nodeName' attributes' attrs a =
     (let matcher = getProp attrs (ruleKey (attr_name a))
      in if \<not> truthy matcher then Inr True
         else (case matches nodeName' attributes' (attr_value a) matcher of
                 Inl e \<Rightarrow> Inl e
               | Inr r \<Rightarrow> Inr (\<not> truthy r)))"

fun filterE :: "('a \<Rightarrow> error + bool) \<Rightarrow> 'a list \<Rightarrow> error + 'a list" where
  \<comment> \<open>\<^verbatim>\<open>Array.prototype.filter\<close> with a callback that may throw\<close>
  "filterE f [] = Inr []"
| "filterE f (x # xs) =
     (case f x of
        Inl e \<Rightarrow> Inl e
      | Inr b \<Rightarrow>
          (case filterE f xs of
             Inl e \<Rightarrow> Inl e
           | Inr ys \<Rightarrow> Inr (if b then x # ys else ys)))"

definition filterAttributes :: "element \<Rightarrow> jsval \<Rightarrow> error + element" where
  "filterAttributes el attrs =
     (case filterE (keepAttribute (nodeName el) (attributes el) attrs) (attributes el) of
        Inl e \<Rightarrow> Inl e
      | Inr filteredAttrs \<Rightarrow>
          Inr \<lparr>nodeName = nodeName el,
               attributes = filteredAttrs,
               raw = replace (raw el) (join (map attr_raw (attributes el)))
                       (join (map attr_raw filteredAttrs))\<rparr>)"

fun filterHtmlAttrs_forEach :: "jsval \<Rightarrow> element list \<Rightarrow> string \<Rightarrow> error + string" where
  \<comment> \<open>the \<^verbatim>\<open>forEach\<close> of \<^verbatim>\<open>filterHtmlAttrs\<close>, with \<^verbatim>\<open>filteredHtml\<close> as the accumulator\<close>
  "filterHtmlAttrs_forEach filterAttrs [] filteredHtml = Inr filteredHtml"
| "filterHtmlAttrs_forEach filterAttrs (el # els) filteredHtml =
     (case filterAttributes el filterAttrs of
        Inl e \<Rightarrow> Inl e
      | Inr filteredElement \<Rightarrow>
          filterHtmlAttrs_forEach filterAttrs els
            (replace filteredHtml (raw el) (raw filteredElement)))"

definition filterHtmlAttrs :: "string \<Rightarrow> jsval \<Rightarrow> error + string" where
  "filterHtmlAttrs htmlString filterAttrs =
     (if \<not> truthy filterAttrs then Inr htmlString
      else filterHtmlAttrs_forEach filterAttrs (parseElements htmlString) htmlString)"

section \<open>Shapes of matchers\<close>

text \<open>
  Two predicates on matcher values, used to state when \<^verbatim>\<open>matches\<close> returns a boolean and
  when it returns at all. \<^verbatim>\<open>recognized\<close>: every value nested in the matcher is of a type
  that the \<^verbatim>\<open>switch\<close> of \<^verbatim>\<open>matches\<close> handles (a boolean, a string, an array or an object).
  \<^verbatim>\<open>noNull\<close>: no \<^verbatim>\<open>null\<close> is nested in the matcher; reading \<^verbatim>\<open>matcher.nodeName\<close> of \<^verbatim>\<open>null\<close>
  is the only fault of the program.
\<close>

fun recognized :: "jsval \<Rightarrow> bool" where
  "recognized (JBool b) = True"
| "recognized (JStr s) = True"
| "recognized (JArr xs) = list_all recognized xs"
| "recognized (JObj ps) = list_all (\<lambda>p. recognized (snd p)) ps"
| "recognized v = False"

fun noNull :: "jsval \<Rightarrow> bool" where
  "noNull JNull = False"
| "noNull (JArr xs) = list_all noNull xs"
| "noNull (JObj ps) = list_all (\<lambda>p. noNull (snd p)) ps"
| "noNull v = True"

section \<open>Examples\<close>

text \<open>
  The two patterns, the tokenizer and the filter on small inputs, among them the calls
  that the documentation of \<^verbatim>\<open>filterHtmlAttrs\<close> lists. A rule keyed \<^verbatim>\<open>class\<close>, as that
  documentation writes its structured matcher, removes nothing: the attribute \<^verbatim>\<open>class\<close> is
  governed by the key \<^verbatim>\<open>className\<close>. A \<^verbatim>\<open>null\<close> nested in a matcher makes the call throw.
\<close>

lemma tagStringRegex_exec_examples:
  "tagStringRegex_exec ''t<br/>u'' = Some (''<br/>'', ''br'', ''u'')"
  "tagStringRegex_exec ''a<>b</p>'' = Some (''</p>'', ''/p'', [])"
  "tagStringRegex_exec ''<//>'' = Some (''<//>'', ''/'', [])"
  "tagStringRegex_exec ''<<a>'' = Some (''<<a>'', ''<a'', [])"
  "tagStringRegex_exec ''x < y'' = None"
  by code_simp+

lemma attributeRegex_loop_examples:
  "attributeRegex_loop None ''ID=\"Main\" hidden data-n=3''
     = [\<lparr>attr_name = ''id'', attr_value = ''Main'', attr_raw = ''ID=\"Main\"''\<rparr>,
        \<lparr>attr_name = ''hidden'', attr_value = [], attr_raw = ''hidden''\<rparr>,
        \<lparr>attr_name = ''data-n'', attr_value = ''3'', attr_raw = ''data-n=3''\<rparr>]"
  "attributeRegex_loop None [CHR ''t'', CHR ''='', CHR 0x27, CHR ''a'', CHR '' '', CHR ''b'', CHR 0x27]
     = [\<lparr>attr_name = ''t'', attr_value = ''a b'',
         attr_raw = [CHR ''t'', CHR ''='', CHR 0x27, CHR ''a'', CHR '' '', CHR ''b'', CHR 0x27]\<rparr>]"
  "attributeRegex_loop None ''a=\"b -c''
     = [\<lparr>attr_name = ''a'', attr_value = [], attr_raw = ''a=''\<rparr>,
        \<lparr>attr_name = ''b'', attr_value = [], attr_raw = ''b''\<rparr>,
        \<lparr>attr_name = ''c'', attr_value = [], attr_raw = ''c''\<rparr>]"
  by code_simp+

lemma parseElements_example:
  "parseElements ''<DIV Class=\"foo\"><input type=\"text\" disabled/></DIV>''
     = [\<lparr>nodeName = ''div'',
         attributes = [\<lparr>attr_name = ''class'', attr_value = ''foo'', attr_raw = ''Class=\"foo\"''\<rparr>],
         raw = ''<DIV Class=\"foo\">''\<rparr>,
        \<lparr>nodeName = ''input'',
         attributes = [\<lparr>attr_name = ''type'', attr_value = ''text'', attr_raw = ''type=\"text\"''\<rparr>,
                       \<lparr>attr_name = ''disabled'', attr_value = [], attr_raw = ''disabled''\<rparr>],
         raw = ''<input type=\"text\" disabled/>''\<rparr>]"
  by code_simp

lemma filterHtmlAttrs_documented_examples:
  "filterHtmlAttrs ''<div data-attr=\"foo\">my div</div>'' (JObj [(''data-attr'', JBool True)])
     = Inr ''<div >my div</div>''"
  "filterHtmlAttrs ''<div data-attr=\"foo\">my div</div>'' (JObj [(''data-attr'', JStr ''foo'')])
     = Inr ''<div >my div</div>''"
  "filterHtmlAttrs ''<div data-attr=\"foo\">my div</div>'' (JObj [(''data-attr'', JStr ''bar'')])
     = Inr ''<div data-attr=\"foo\">my div</div>''"
  "filterHtmlAttrs ''<div data-attr=\"foo\">my div</div>''
       (JObj [(''data-attr'', JArr [JStr ''foo'', JStr ''bar''])])
     = Inr ''<div >my div</div>''"
  "filterHtmlAttrs ''<div class=\"foo\"><input type=\"text\" class=\"foo\"/></div>''
       (JObj [(''className'', JObj [(''nodeName'', JStr ''input'')])])
     = Inr ''<div class=\"foo\"><input type=\"text\"/></div>''"
  "filterHtmlAttrs ''<div class=\"foo\"><input type=\"text\" class=\"foo\"/></div>''
       (JObj [(''class'', JObj [(''nodeName'', JStr ''input'')])])
     = Inr ''<div class=\"foo\"><input type=\"text\" class=\"foo\"/></div>''"
  "filterHtmlAttrs ''<input disabled>'' (JObj [(''disabled'', JBool True)]) = Inr ''<input >''"
  "filterHtmlAttrs ''<p id=\"a\">'' (JObj [(''id'', JObj [(''attributes'', JObj [(''id'', JNull)])])])
     = Inl TypeError"
  by code_simp+

section \<open>Properties of the filter and of the matcher\<close>


subsection \<open>The attribute filter\<close>

lemma filterE_Inr: "filterE f xs = Inr ys \<Longrightarrow> ys = filter (\<lambda>x. f x = Inr True) xs"
proof (induction xs arbitrary: ys)
  case Nil
  then show ?case by simp
next
  case (Cons x xs)
  then show ?case by (auto split: sum.splits if_splits)
qed

lemma filterE_total: "(\<And>x. x \<in> set xs \<Longrightarrow> \<exists>b. f x = Inr b) \<Longrightarrow> \<exists>ys. filterE f xs = Inr ys"
proof (induction xs)
  case Nil
  then show ?case by simp
next
  case (Cons x xs)
  then obtain b where "f x = Inr b" by auto
  moreover obtain ys where "filterE f xs = Inr ys" using Cons by auto
  ultimately show ?case by simp
qed

lemma filterE_cong: "(\<And>x. x \<in> set xs \<Longrightarrow> f x = g x) \<Longrightarrow> filterE f xs = filterE g xs"
proof (induction xs)
  case Nil
  then show ?case by simp
next
  case (Cons x xs)
  then have "f x = g x" and "filterE f xs = filterE g xs" by auto
  then show ?case by (simp cong: sum.case_cong)
qed

lemma filterAttributes_Inr:
  assumes "filterAttributes el attrs = Inr el'"
  shows "attributes el' =
           filter (\<lambda>a. keepAttribute (nodeName el) (attributes el) attrs a = Inr True) (attributes el)"
    and "nodeName el' = nodeName el"
    and "raw el' = replace (raw el) (join (map attr_raw (attributes el)))
                     (join (map attr_raw (attributes el')))"
  using assms filterE_Inr [of "keepAttribute (nodeName el) (attributes el) attrs" "attributes el"]
  by (auto simp: filterAttributes_def split: sum.splits)

subsection \<open>The matcher\<close>

text \<open>
  \<^verbatim>\<open>matches\<close> returns \<^verbatim>\<open>true\<close>, \<^verbatim>\<open>false\<close> or \<^verbatim>\<open>undefined\<close>, or throws. Once the accumulator
  of the \<^verbatim>\<open>forEach\<close> is falsy it stays as it is, and nothing more is evaluated.
\<close>

lemma filter1_eq:
  "(if truthy N then JBool (N = JStr n) else JBool True) = JBool (truthy N \<longrightarrow> N = JStr n)"
  by simp

lemma matches_JObj:
  "matches n a v (JObj ps) =
     (if truthy (getProp (JObj ps) ''attributes'')
      then matches_forEach n a (getProp (JObj ps) ''attributes'')
             (keys (getProp (JObj ps) ''attributes''))
             (JBool (truthy (getProp (JObj ps) ''nodeName'')
                       \<longrightarrow> getProp (JObj ps) ''nodeName'' = JStr n))
      else Inr (JBool (truthy (getProp (JObj ps) ''nodeName'')
                         \<longrightarrow> getProp (JObj ps) ''nodeName'' = JStr n)))"
  by (simp add: Let_def del: getProp.simps)

lemma matches_forEach_falsy:
  "\<not> truthy f \<Longrightarrow> matches_forEach n a obj ks f = Inr f"
  by (induction ks) (auto simp: land_def split: option.splits)

lemma matches_range:
  "matches n a v m = Inl TypeError \<or> matches n a v m = Inr JUndefined \<or> (\<exists>b. matches n a v m = Inr (JBool b))"
  and "f = JUndefined \<or> (\<exists>b. f = JBool b) \<Longrightarrow>
       matches_forEach n a obj ks f = Inl TypeError \<or> matches_forEach n a obj ks f = Inr JUndefined
         \<or> (\<exists>b. matches_forEach n a obj ks f = Inr (JBool b))"
proof (induction n a v m and n a obj ks f rule: matches_matches_forEach.induct)
  case (5 n a v ps)
  show ?case
  proof (cases "truthy (getProp (JObj ps) ''attributes'')")
    case True
    show ?thesis using 5 [OF refl refl True] True unfolding matches_JObj filter1_eq
      by (simp del: getProp.simps)
  next
    case False
    then show ?thesis unfolding matches_JObj by (simp del: getProp.simps)
  qed
next
  case (10 n a obj k rest f)
  show ?case
  proof (cases "find (\<lambda>attr. attr_name attr = k) a")
    case None
    then show ?thesis using 10 by simp
  next
    case (Some attr)
    show ?thesis
    proof (cases "truthy f")
      case False
      then have "matches_forEach n a obj (k # rest) f = Inr f" by (rule matches_forEach_falsy)
      then show ?thesis using 10(4) by (auto simp del: matches_forEach.simps)
    next
      case True
      show ?thesis
      proof (cases "matches n a (attr_value attr) (getProp obj k)")
        case (Inl e)
        then show ?thesis using Some True by (cases e) (simp add: land_def)
      next
        case (Inr r)
        then have "r = JUndefined \<or> (\<exists>b. r = JBool b)" using 10(2)[OF Some] by auto
        then show ?thesis using 10(3)[OF Some, of r] Some True Inr by (simp add: land_def)
      qed
    qed
  qed
qed auto

lemma matches_truthy_iff:
  "matches n a v m = Inr r \<Longrightarrow> truthy r \<longleftrightarrow> r = JBool True"
  using matches_range(1) [of n a v m] by auto

lemma matches_forEach_true_iff:
  "matches_forEach n a obj ks (JBool True) = Inr (JBool True) \<longleftrightarrow>
     (\<forall>k \<in> set ks. \<forall>attr. find (\<lambda>attr. attr_name attr = k) a = Some attr \<longrightarrow>
        matches n a (attr_value attr) (getProp obj k) = Inr (JBool True))"
proof (induction ks)
  case Nil
  then show ?case by simp
next
  case (Cons k ks)
  show ?case
  proof (cases "find (\<lambda>attr. attr_name attr = k) a")
    case None
    then show ?thesis using Cons by simp
  next
    case (Some attr)
    show ?thesis
    proof (cases "matches n a (attr_value attr) (getProp obj k)")
      case (Inl e)
      then show ?thesis using Some by (simp add: land_def)
    next
      case (Inr r)
      show ?thesis
      proof (cases "r = JBool True")
        case True
        then show ?thesis using Some Inr Cons by (simp add: land_def)
      next
        case False
        then have "\<not> truthy r" using matches_truthy_iff [OF Inr] by simp
        then have "matches_forEach n a obj ks r = Inr r" by (rule matches_forEach_falsy)
        then show ?thesis using Some Inr False by (simp add: land_def)
      qed
    qed
  qed
qed

lemma recognized_getProp:
  assumes "recognized obj" and "k \<in> set (keys obj)"
  shows "recognized (getProp obj k)"
proof (cases obj)
  case (JObj ps)
  then have "k \<in> fst ` set ps" using assms(2) by simp
  then have "map_of ps k \<noteq> None" by (simp add: map_of_eq_None_iff)
  then obtain v where "map_of ps k = Some v" by auto
  moreover from this have "(k, v) \<in> set ps" by (rule map_of_SomeD)
  ultimately show ?thesis using assms(1) JObj by (auto simp: list_all_iff)
next
  case (JArr xs)
  then obtain i where "i < length xs" and "digits i = k" using assms(2) by auto
  then obtain j where j: "find (\<lambda>i. digits i = k) [0..<length xs] = Some j"
    by (cases "find (\<lambda>i. digits i = k) [0..<length xs]") (auto simp: find_None_iff)
  then have "j < length xs" by (rule find_upt)
  then show ?thesis using assms(1) JArr j by (auto simp: list_all_iff)
next
  case (JStr s)
  then obtain i where "i < length s" and "digits i = k" using assms(2) by auto
  then obtain j where j: "find (\<lambda>i. digits i = k) [0..<length s] = Some j"
    by (cases "find (\<lambda>i. digits i = k) [0..<length s]") (auto simp: find_None_iff)
  then show ?thesis using JStr by simp
qed (use assms in auto)

lemma recognized_matches:
  "recognized m \<Longrightarrow> \<exists>b. matches n a v m = Inr (JBool b)"
  and "(\<And>k. k \<in> set ks \<Longrightarrow> recognized (getProp obj k)) \<Longrightarrow> \<exists>c. f = JBool c \<Longrightarrow>
       \<exists>b. matches_forEach n a obj ks f = Inr (JBool b)"
proof (induction n a v m and n a obj ks f rule: matches_matches_forEach.induct)
  case (5 n a v ps)
  show ?case
  proof (cases "truthy (getProp (JObj ps) ''attributes'')")
    case True
    have "\<And>k. k \<in> set (keys (getProp (JObj ps) ''attributes'')) \<Longrightarrow>
            recognized (getProp (getProp (JObj ps) ''attributes'') k)"
    proof -
      fix k assume k: "k \<in> set (keys (getProp (JObj ps) ''attributes''))"
      obtain v where "map_of ps ''attributes'' = Some v"
        using True by (cases "map_of ps ''attributes''") auto
      then have "(''attributes'', v) \<in> set ps" by (rule map_of_SomeD)
      then have "''attributes'' \<in> set (keys (JObj ps))" by force
      then have "recognized (getProp (JObj ps) ''attributes'')"
        using 5(2) by (rule recognized_getProp [rotated])
      then show "recognized (getProp (getProp (JObj ps) ''attributes'') k)"
        using k by (rule recognized_getProp)
    qed
    then show ?thesis using 5(1) [OF refl refl True] True unfolding matches_JObj filter1_eq
      by (simp del: getProp.simps)
  next
    case False
    then show ?thesis unfolding matches_JObj filter1_eq by (simp del: getProp.simps)
  qed
next
  case (10 n a obj k rest f)
  from 10(5) obtain c where c: "f = JBool c" by blast
  show ?case
  proof (cases "find (\<lambda>attr. attr_name attr = k) a")
    case None
    then show ?thesis using 10 by simp
  next
    case (Some attr)
    show ?thesis
    proof (cases c)
      case False
      have "matches_forEach n a obj (k # rest) f = Inr f"
        using False c by (intro matches_forEach_falsy) simp
      then show ?thesis using c by blast
    next
      case True
      have "recognized (getProp obj k)" using 10(4) by simp
      then obtain b where b: "matches n a (attr_value attr) (getProp obj k) = Inr (JBool b)"
        using 10(2) [OF Some] by blast
      have "land f (matches n a (attr_value attr) (getProp obj k)) = Inr (JBool b)"
        using b c True by (simp add: land_def)
      from 10(3) [OF Some this] 10(4)
      have "\<exists>b'. matches_forEach n a obj rest (JBool b) = Inr (JBool b')" by simp
      then show ?thesis using Some True b c by (simp add: land_def)
    qed
  qed
qed auto

lemma matches_JObj_true_iff:
  "matches n a v (JObj ps) = Inr (JBool True) \<longleftrightarrow>
     (truthy (getProp (JObj ps) ''nodeName'') \<longrightarrow> getProp (JObj ps) ''nodeName'' = JStr n)
     \<and> (\<forall>k \<in> set (keys (getProp (JObj ps) ''attributes'')).
          \<forall>attr. find (\<lambda>x. attr_name x = k) a = Some attr \<longrightarrow>
            matches n a (attr_value attr) (getProp (getProp (JObj ps) ''attributes'') k)
              = Inr (JBool True))"
proof -
  let ?N = "getProp (JObj ps) ''nodeName''" and ?A = "getProp (JObj ps) ''attributes''"
  let ?c = "truthy ?N \<longrightarrow> ?N = JStr n"
  have keys_falsy: "keys ?A = []" if "\<not> truthy ?A"
    using that by (cases ?A) (auto simp del: getProp.simps)
  show ?thesis
  proof (cases "truthy ?A")
    case False
    then show ?thesis unfolding matches_JObj filter1_eq using keys_falsy [OF False]
      by (simp del: getProp.simps)
  next
    case True
    show ?thesis
    proof (cases ?c)
      case False
      then have "matches_forEach n a ?A (keys ?A) (JBool ?c) = Inr (JBool ?c)"
        by (intro matches_forEach_falsy) (simp del: getProp.simps)
      then show ?thesis unfolding matches_JObj filter1_eq using True False
        by (simp del: getProp.simps)
    next
      case c: True
      then have "JBool ?c = JBool True" by (simp del: getProp.simps)
      then show ?thesis unfolding matches_JObj filter1_eq
        using True c matches_forEach_true_iff [of n a ?A "keys ?A"]
        by (simp del: getProp.simps)
    qed
  qed
qed

lemma noNull_getProp: "noNull obj \<Longrightarrow> noNull (getProp obj k)"
proof (cases obj)
  case (JObj ps)
  assume "noNull obj"
  then show ?thesis using JObj
    by (auto simp: list_all_iff split: option.splits dest!: map_of_SomeD)
next
  case (JArr xs)
  assume "noNull obj"
  then show ?thesis using JArr
    by (auto simp: list_all_iff split: option.splits dest!: find_upt)
qed (auto split: option.splits)

lemma noNull_matches:
  "noNull m \<Longrightarrow> \<exists>r. matches n a v m = Inr r"
  and "noNull obj \<Longrightarrow> \<exists>r. matches_forEach n a obj ks f = Inr r"
proof (induction n a v m and n a obj ks f rule: matches_matches_forEach.induct)
  case (5 n a v ps)
  have "noNull (getProp (JObj ps) ''attributes'')" using 5(2) by (rule noNull_getProp)
  then show ?case using 5(1) [OF refl refl] unfolding matches_JObj filter1_eq
    by (simp del: getProp.simps)
next
  case (10 n a obj k rest f)
  show ?case
  proof (cases "find (\<lambda>attr. attr_name attr = k) a")
    case None
    then show ?thesis using 10 by simp
  next
    case (Some attr)
    have "noNull (getProp obj k)" using 10(4) by (rule noNull_getProp)
    then obtain r where r: "matches n a (attr_value attr) (getProp obj k) = Inr r"
      using 10(2) [OF Some] by blast
    then obtain r' where r': "land f (matches n a (attr_value attr) (getProp obj k)) = Inr r'"
      by (cases "truthy f") (auto simp: land_def)
    then show ?thesis using 10(3) [OF Some r' 10(4)] Some by simp
  qed
qed auto

lemma keepAttribute_total:
  assumes "\<not> truthy (getProp attrs (ruleKey (attr_name a))) \<or> noNull (getProp attrs (ruleKey (attr_name a)))"
  shows "\<exists>b. keepAttribute n as attrs a = Inr b"
proof (cases "truthy (getProp attrs (ruleKey (attr_name a)))")
  case True
  then have "noNull (getProp attrs (ruleKey (attr_name a)))" using assms by simp
  then obtain r where "matches n as (attr_value a) (getProp attrs (ruleKey (attr_name a))) = Inr r"
    using noNull_matches(1) by blast
  then show ?thesis using True by (simp add: keepAttribute_def)
next
  case False
  then show ?thesis by (auto simp: keepAttribute_def)
qed

lemma keepAttribute_True_iff:
  "keepAttribute n as attrs a = Inr True \<longleftrightarrow>
     \<not> truthy (getProp attrs (ruleKey (attr_name a)))
     \<or> matches n as (attr_value a) (getProp attrs (ruleKey (attr_name a))) = Inr (JBool False)
     \<or> matches n as (attr_value a) (getProp attrs (ruleKey (attr_name a))) = Inr JUndefined"
  using matches_range(1) [of n as "attr_value a" "getProp attrs (ruleKey (attr_name a))"]
  by (auto simp: keepAttribute_def Let_def)

subsection \<open>The rule key\<close>

text \<open>
  The key under which the rule set is read is never \<^verbatim>\<open>for\<close> or \<^verbatim>\<open>class\<close>, and never the
  name of a member of \<^verbatim>\<open>Object.prototype\<close>.
\<close>

lemma ruleKey_cases:
  "ruleKey ''for'' = ''htmlFor''" "ruleKey ''class'' = ''className''"
  "name' \<noteq> ''for'' \<Longrightarrow> name' \<noteq> ''class'' \<Longrightarrow> inheritedKey name' = None \<Longrightarrow> ruleKey name' = name'"
  by (simp_all add: ruleKey_def attrMap_def)


lemma inheritedKey_range:
  "inheritedKey name' = Some k \<Longrightarrow>
     k \<in> set [''function Object() { [native code] }'', ''[object Object]'',
               ''function hasOwnProperty() { [native code] }'',
               ''function isPrototypeOf() { [native code] }'',
               ''function propertyIsEnumerable() { [native code] }'',
               ''function toLocaleString() { [native code] }'',
               ''function toString() { [native code] }'',
               ''function valueOf() { [native code] }'',
               ''function __defineGetter__() { [native code] }'',
               ''function __defineSetter__() { [native code] }'',
               ''function __lookupGetter__() { [native code] }'',
               ''function __lookupSetter__() { [native code] }'']"
  unfolding inheritedKey_def by (simp split: if_splits)

lemma inheritedKey_not_alias_source:
  "inheritedKey name' = Some k \<Longrightarrow> k \<noteq> ''for'' \<and> k \<noteq> ''class''"
  by (drule inheritedKey_range) auto

lemma inheritedKey_of_range:
  "list_all (\<lambda>k. inheritedKey k = None)
     [''function Object() { [native code] }'', ''[object Object]'',
      ''function hasOwnProperty() { [native code] }'',
      ''function isPrototypeOf() { [native code] }'',
      ''function propertyIsEnumerable() { [native code] }'',
      ''function toLocaleString() { [native code] }'',
      ''function toString() { [native code] }'',
      ''function valueOf() { [native code] }'',
      ''function __defineGetter__() { [native code] }'',
      ''function __defineSetter__() { [native code] }'',
      ''function __lookupGetter__() { [native code] }'',
      ''function __lookupSetter__() { [native code] }'',
      ''htmlFor'', ''className'']"
  unfolding inheritedKey_def by simp

lemma ruleKey_not_inherited: "inheritedKey (ruleKey name') = None"
proof (cases "inheritedKey name'")
  case None
  have "ruleKey name' = ''htmlFor'' \<or> ruleKey name' = ''className'' \<or> ruleKey name' = name'"
    using None by (simp add: ruleKey_def attrMap_def)
  then show ?thesis using None inheritedKey_of_range by auto
next
  case (Some k)
  have "ruleKey name' = ''htmlFor'' \<or> ruleKey name' = ''className'' \<or> ruleKey name' = k"
    using Some by (simp add: ruleKey_def attrMap_def)
  then show ?thesis
    using inheritedKey_range [OF Some] inheritedKey_of_range by (auto simp: list_all_iff)
qed

lemma ruleKey_never_alias_source: "ruleKey name' \<noteq> ''for'' \<and> ruleKey name' \<noteq> ''class''"
proof (cases "inheritedKey name'")
  case None
  then show ?thesis by (simp add: ruleKey_def attrMap_def)
next
  case (Some k)
  have "ruleKey name' = ''htmlFor'' \<or> ruleKey name' = ''className'' \<or> ruleKey name' = k"
    using Some by (simp add: ruleKey_def attrMap_def)
  then show ?thesis using inheritedKey_not_alias_source [OF Some] by auto
qed

lemma keepAttribute_depends:
  "getProp attrs1 (ruleKey (attr_name a)) = getProp attrs2 (ruleKey (attr_name a)) \<Longrightarrow>
   keepAttribute n as attrs1 a = keepAttribute n as attrs2 a"
  by (simp add: keepAttribute_def)

lemma filterAttributes_frame:
  assumes "\<And>k. k \<noteq> ''for'' \<Longrightarrow> k \<noteq> ''class'' \<Longrightarrow> getProp attrs1 k = getProp attrs2 k"
  shows "filterAttributes el attrs1 = filterAttributes el attrs2"
proof -
  have "keepAttribute (nodeName el) (attributes el) attrs1 a
        = keepAttribute (nodeName el) (attributes el) attrs2 a" for a
    using assms ruleKey_never_alias_source [of "attr_name a"] by (intro keepAttribute_depends) blast
  then have "keepAttribute (nodeName el) (attributes el) attrs1
             = keepAttribute (nodeName el) (attributes el) attrs2"
    by (intro ext)
  then show ?thesis by (simp add: filterAttributes_def)
qed

lemma filterHtmlAttrs_forEach_frame:
  assumes "\<And>k. k \<noteq> ''for'' \<Longrightarrow> k \<noteq> ''class'' \<Longrightarrow> getProp attrs1 k = getProp attrs2 k"
  shows "filterHtmlAttrs_forEach attrs1 els h = filterHtmlAttrs_forEach attrs2 els h"
proof (induction els arbitrary: h)
  case Nil
  show ?case by simp
next
  case (Cons el els)
  have "filterAttributes el attrs1 = filterAttributes el attrs2"
    using assms by (rule filterAttributes_frame)
  then show ?case using Cons by (simp cong: sum.case_cong)
qed

subsection \<open>Replacing the first occurrence\<close>

lemma indexOf_Some: "indexOf pat s = Some (pre, post) \<Longrightarrow> s = pre @ pat @ post"
proof (induction s arbitrary: pre)
  case Nil
  then show ?case by (simp split: if_splits)
next
  case (Cons c cs)
  show ?case
  proof (cases "prefix pat (c # cs)")
    case True
    then obtain r where r: "c # cs = pat @ r" by (auto simp: prefix_def)
    then have "drop (length pat) (c # cs) = r" by (metis append_eq_conv_conj)
    moreover have "indexOf pat (c # cs) = Some ([], drop (length pat) (c # cs))"
      using True by simp
    ultimately have "pre = []" and "post = r" using Cons.prems by simp_all
    then show ?thesis using r by simp
  next
    case False
    then obtain b where "indexOf pat cs = Some (b, post)" and "pre = c # b"
      using Cons.prems by auto
    then show ?thesis using Cons.IH by simp
  qed
qed


lemma getSubstitution_plain:
  "CHR ''$'' \<notin> set t \<Longrightarrow> getSubstitution pre m post t = t"
  by (induction pre m post t rule: getSubstitution.induct) auto


lemma replace_same: "CHR ''$'' \<notin> set pat \<Longrightarrow> replace s pat pat = s"
proof (cases "indexOf pat s")
  case None
  then show ?thesis by (simp add: replace_def)
next
  case (Some p)
  assume "CHR ''$'' \<notin> set pat"
  then show ?thesis using Some indexOf_Some [of pat s "fst p" "snd p"]
    by (cases p) (simp add: replace_def getSubstitution_plain)
qed

subsection \<open>The elements of parseElements\<close>

text \<open>
  Every element comes from one match of the tag pattern whose group 1 does not start with
  a slash; its text is \<^verbatim>\<open><\<close>, at least one character other than \<^verbatim>\<open>>\<close>, and \<^verbatim>\<open>>\<close>.
\<close>

lemma tagStringRegex_exec_shape:
  "tagStringRegex_exec s = Some (m, g, rest) \<Longrightarrow>
     \<exists>inner. m = CHR ''<'' # inner @ ''>'' \<and> inner \<noteq> [] \<and> CHR ''>'' \<notin> set inner
       \<and> take 1 g = take 1 inner \<and> set m \<subseteq> set s \<and> set g \<subseteq> set m \<and> set rest \<subseteq> set s"
proof (induction s)
  case Nil
  then show ?case by simp
next
  case (Cons c cs)
  let ?inner = "takeWhile (\<lambda>x. x \<noteq> CHR ''>'') cs"
  let ?rest = "dropWhile (\<lambda>x. x \<noteq> CHR ''>'') cs"
  show ?case
  proof (cases "c = CHR ''<'' \<and> ?inner \<noteq> [] \<and> ?rest \<noteq> []")
    case True
    then have m: "m = CHR ''<'' # ?inner @ ''>''"
      and g: "g = (if 2 \<le> length ?inner \<and> last ?inner = CHR ''/'' then butlast ?inner else ?inner)"
      using Cons.prems by (simp_all add: Let_def)
    have no: "CHR ''>'' \<notin> set ?inner" by (auto dest: set_takeWhileD)
    have "take 1 g = take 1 ?inner"
      using g True by (cases ?inner rule: rev_cases) (auto simp: take_Suc_conv_app_nth butlast_append)
    moreover have "set ?inner \<subseteq> set cs" by (auto dest: set_takeWhileD)
    moreover have "CHR ''>'' \<in> set cs"
    proof -
      have "hd ?rest \<in> set ?rest" using True by simp
      moreover have "hd ?rest = CHR ''>''" using True hd_dropWhile [of "\<lambda>x. x \<noteq> CHR ''>''" cs] by simp
      ultimately show ?thesis by (auto dest: set_dropWhileD)
    qed
    moreover have "set g \<subseteq> set ?inner" using g by (auto dest: in_set_butlastD)
    moreover have "set rest \<subseteq> set cs"
    proof -
      have "rest = tl ?rest" using True Cons.prems by (simp add: Let_def)
      then have "set rest \<subseteq> set ?rest" using True
        by (cases ?rest) auto
      then show ?thesis by (auto dest: set_dropWhileD)
    qed
    ultimately show ?thesis using m True no by auto
  next
    case False
    then have "tagStringRegex_exec cs = Some (m, g, rest)"
      using Cons.prems by (auto simp: Let_def)
    then show ?thesis using Cons.IH by auto
  qed
qed

lemma parseElements_elem:
  "e \<in> set (parseElements s) \<Longrightarrow>
     \<exists>s' g rest. set s' \<subseteq> set s \<and> tagStringRegex_exec s' = Some (raw e, g, rest)
       \<and> take 1 g \<noteq> ''/''
       \<and> attributes e = attributeRegex_loop None
            (trim (drop (length (takeWhile (\<lambda>c. c \<noteq> CHR '' '') g) + 1) g))"
proof (induction "length s" arbitrary: s rule: less_induct)
  case less
  show ?case
  proof (cases "tagStringRegex_exec s")
    case None
    then show ?thesis using less.prems by (simp add: parseElements.simps [of s])
  next
    case (Some t)
    obtain m g rest where t: "t = (m, g, rest)" by (cases t)
    have shorter: "length rest < length s"
      using Some t by (auto dest: tagStringRegex_exec_shorter)
    have sub: "set rest \<subseteq> set s"
      using tagStringRegex_exec_shape [of s m g rest] Some t by auto
    have tail: ?thesis if mem: "e \<in> set (parseElements rest)"
    proof -
      obtain s' g' rest' where "set s' \<subseteq> set rest"
          "tagStringRegex_exec s' = Some (raw e, g', rest')" "take 1 g' \<noteq> ''/''"
          "attributes e = attributeRegex_loop None
            (trim (drop (length (takeWhile (\<lambda>c. c \<noteq> CHR '' '') g') + 1) g'))"
        using less.hyps [OF shorter mem] by blast
      then have "set s' \<subseteq> set s" using sub by blast
      then show ?thesis
        using \<open>tagStringRegex_exec s' = Some (raw e, g', rest')\<close> \<open>take 1 g' \<noteq> ''/''\<close>
          \<open>attributes e = attributeRegex_loop None
            (trim (drop (length (takeWhile (\<lambda>c. c \<noteq> CHR '' '') g') + 1) g'))\<close>
        by blast
    qed
    show ?thesis
    proof (cases "take 1 g = ''/''")
      case True
      then have "e \<in> set (parseElements rest)"
        using less.prems Some t by (simp add: parseElements.simps [of s])
      then show ?thesis by (rule tail)
    next
      case False
      then consider "e = \<lparr>nodeName = toLowerCase (take (length (takeWhile (\<lambda>c. c \<noteq> CHR '' '') g)) g),
            attributes = attributeRegex_loop None
              (trim (drop (length (takeWhile (\<lambda>c. c \<noteq> CHR '' '') g) + 1) g)),
            raw = m\<rparr>" | "e \<in> set (parseElements rest)"
        using less.prems Some t by (auto simp: parseElements.simps [of s] Let_def)
      then show ?thesis
      proof cases
        case 1
        then show ?thesis using Some t False by (intro exI [of _ s] exI [of _ g] exI [of _ rest]) simp
      next
        case 2
        then show ?thesis by (rule tail)
      qed
    qed
  qed
qed

lemma parseElements_raw:
  assumes "e \<in> set (parseElements s)"
  shows "\<exists>x y. raw e = CHR ''<'' # x # y @ ''>'' \<and> x \<noteq> CHR ''/'' \<and> CHR ''>'' \<notin> set (x # y)"
    and "set (raw e) \<subseteq> set s"
proof -
  obtain s' g rest where s': "set s' \<subseteq> set s" "tagStringRegex_exec s' = Some (raw e, g, rest)"
      "take 1 g \<noteq> ''/''"
    using parseElements_elem [OF assms] by blast
  obtain inner where inner: "raw e = CHR ''<'' # inner @ ''>''" "inner \<noteq> []"
      "CHR ''>'' \<notin> set inner" "take 1 g = take 1 inner" "set (raw e) \<subseteq> set s'"
    using tagStringRegex_exec_shape [OF s'(2)] by blast
  obtain x y where xy: "inner = x # y" using inner(2) by (cases inner) auto
  then have "x \<noteq> CHR ''/''" using inner(4) s'(3) by auto
  then show "\<exists>x y. raw e = CHR ''<'' # x # y @ ''>'' \<and> x \<noteq> CHR ''/'' \<and> CHR ''>'' \<notin> set (x # y)"
    using inner(1,3) xy by auto
  show "set (raw e) \<subseteq> set s" using inner(5) s'(1) by blast
qed


subsection \<open>Bracketed texts in a string\<close>

text \<open>
  Two different texts of the form \<^verbatim>\<open><m>\<close>, with neither \<^verbatim>\<open><\<close> nor \<^verbatim>\<open>>\<close> in \<^verbatim>\<open>m\<close>, cannot
  overlap in a string, so replacing an occurrence of one leaves the occurrences of the
  other in place.
\<close>

lemma bracket_same_start:
  assumes "m1 @ CHR ''>'' # v1 = m2 @ CHR ''>'' # v2"
    and "CHR ''>'' \<notin> set m1" and "CHR ''>'' \<notin> set m2"
  shows "m1 = m2"
proof -
  have "takeWhile (\<lambda>x. x \<noteq> CHR ''>'') (m1 @ CHR ''>'' # v1) = m1"
    using assms(2) by (auto simp: takeWhile_tail takeWhile_eq_all_conv)
  moreover have "takeWhile (\<lambda>x. x \<noteq> CHR ''>'') (m2 @ CHR ''>'' # v2) = m2"
    using assms(3) by (auto simp: takeWhile_tail takeWhile_eq_all_conv)
  ultimately show ?thesis using assms(1) by simp
qed

lemma bracket_inside:
  assumes "CHR ''<'' # m @ ''>'' = z @ y" and "z \<noteq> []" and "y \<noteq> []"
    and "CHR ''<'' \<notin> set m"
  shows "hd y \<noteq> CHR ''<''"
proof -
  obtain c z' where z: "z = c # z'" using assms(2) by (cases z) auto
  then have "m @ ''>'' = z' @ y" using assms(1) by simp
  then have "set y \<subseteq> set (m @ ''>'')" by (metis set_append sup_ge2)
  moreover have "hd y \<in> set y" using assms(3) by simp
  ultimately show ?thesis using assms(4) by auto
qed

lemma bracket_disjoint:
  assumes eq: "u1 @ w1 @ v1 = u2 @ w2 @ v2"
    and w1: "w1 = CHR ''<'' # m1 @ ''>''" "CHR ''<'' \<notin> set m1" "CHR ''>'' \<notin> set m1"
    and w2: "w2 = CHR ''<'' # m2 @ ''>''" "CHR ''<'' \<notin> set m2" "CHR ''>'' \<notin> set m2"
    and ne: "m1 \<noteq> m2"
  shows "sublist w1 u2 \<or> sublist w1 v2"
proof -
  have start: False if "w1 @ v1 = w2 @ v2"
    using that w1 w2 ne bracket_same_start [of m1 v1 m2 v2] by simp
  have "\<exists>z. u1 = u2 @ z \<and> z @ (w1 @ v1) = w2 @ v2 \<or> u1 @ z = u2 \<and> w1 @ v1 = z @ (w2 @ v2)"
    using eq by (rule iffD1 [OF append_eq_append_conv2])
  then consider z where "u1 = u2 @ z" "z @ w1 @ v1 = w2 @ v2"
    | z where "u1 @ z = u2" "w1 @ v1 = z @ w2 @ v2"
    by blast
  then show ?thesis
  proof cases
    case 1
    have "\<exists>y. z = w2 @ y \<and> y @ (w1 @ v1) = v2 \<or> z @ y = w2 \<and> w1 @ v1 = y @ v2"
      using 1(2) by (rule iffD1 [OF append_eq_append_conv2])
    then consider y where "z = w2 @ y" "y @ w1 @ v1 = v2"
      | y where "z @ y = w2" "w1 @ v1 = y @ v2"
      by blast
    then show ?thesis
    proof cases
      case 1
      then show ?thesis by auto
    next
      case 2
      show ?thesis
      proof (cases "z = []")
        case True
        then show ?thesis using 2 start by simp
      next
        case False
        show ?thesis
        proof (cases "y = []")
          case True
          then have "v2 = w1 @ v1" using 2(2) by simp
          then show ?thesis by auto
        next
          case y: False
          have "hd y \<noteq> CHR ''<''"
            using bracket_inside [of m2 z y] 2(1) w2 False y by simp
          moreover have "hd y = CHR ''<''"
            using 2(2) y w1(1) by (cases y) auto
          ultimately show ?thesis by simp
        qed
      qed
    qed
  next
    case 2
    have "\<exists>y. w1 = z @ y \<and> y @ v1 = w2 @ v2 \<or> w1 @ y = z \<and> v1 = y @ (w2 @ v2)"
      using 2(2) by (rule iffD1 [OF append_eq_append_conv2])
    then consider y where "w1 = z @ y" "y @ v1 = w2 @ v2"
      | y where "w1 @ y = z" "v1 = y @ w2 @ v2"
      by blast
    then show ?thesis
    proof cases
      case 1
      show ?thesis
      proof (cases "z = []")
        case True
        then show ?thesis using 1 start by simp
      next
        case False
        show ?thesis
        proof (cases "y = []")
          case True
          then have "u2 = u1 @ w1" using 1(1) 2(1) by simp
          then show ?thesis by auto
        next
          case y: False
          have "hd y \<noteq> CHR ''<''"
            using bracket_inside [of m1 z y] 1(1) w1 False y by simp
          moreover have "hd y = CHR ''<''"
            using 1(2) y w2(1) by (cases y) auto
          ultimately show ?thesis by simp
        qed
      qed
    next
      case 2
      then have "u2 = u1 @ w1 @ y" using \<open>u1 @ z = u2\<close> by simp
      then show ?thesis by auto
    qed
  qed
qed

lemma replace_keeps_bracket:
  assumes "sublist c h"
    and c: "c = CHR ''<'' # mc @ ''>''" "CHR ''<'' \<notin> set mc" "CHR ''>'' \<notin> set mc"
    and p: "p = CHR ''<'' # mp @ ''>''" "CHR ''<'' \<notin> set mp" "CHR ''>'' \<notin> set mp"
    and ne: "mc \<noteq> mp"
  shows "sublist c (replace h p rep)"
proof (cases "indexOf p h")
  case None
  then show ?thesis using assms(1) by (simp add: replace_def)
next
  case (Some t)
  obtain pre post where t: "t = (pre, post)" by (cases t)
  then have h: "h = pre @ p @ post" using Some by (intro indexOf_Some) simp
  obtain u w where "h = u @ c @ w" using assms(1) by (auto simp: sublist_def)
  then have "u @ c @ w = pre @ p @ post" using h by simp
  then have "sublist c pre \<or> sublist c post"
    using c p ne by (rule bracket_disjoint)
  then have "sublist c (pre @ getSubstitution pre p post rep @ post)"
    by (auto simp: sublist_append)
  then show ?thesis using Some t by (simp add: replace_def)
qed

lemma filterHtmlAttrs_forEach_keeps_bracket:
  assumes "filterHtmlAttrs_forEach r els h = Inr t" and "sublist c h"
    and c: "c = CHR ''<'' # mc @ ''>''" "CHR ''<'' \<notin> set mc" "CHR ''>'' \<notin> set mc"
    and els: "\<And>e. e \<in> set els \<Longrightarrow>
               \<exists>mp. raw e = CHR ''<'' # mp @ ''>'' \<and> CHR ''<'' \<notin> set mp \<and> CHR ''>'' \<notin> set mp \<and> mc \<noteq> mp"
  shows "sublist c t"
  using assms(1,2) els
proof (induction els arbitrary: h)
  case Nil
  then show ?case by simp
next
  case (Cons e els)
  obtain e' where e': "filterAttributes e r = Inr e'"
    using Cons.prems(1) by (cases "filterAttributes e r") auto
  then have run: "filterHtmlAttrs_forEach r els (replace h (raw e) (raw e')) = Inr t"
    using Cons.prems(1) by simp
  obtain mp where mp: "raw e = CHR ''<'' # mp @ ''>''" "CHR ''<'' \<notin> set mp"
      "CHR ''>'' \<notin> set mp" "mc \<noteq> mp"
    using Cons.prems(3) [of e] by auto
  have "sublist c (replace h (raw e) (raw e'))"
    using Cons.prems(2) c mp by (rule replace_keeps_bracket)
  then show ?case using Cons.IH [OF run] Cons.prems(3) by simp
qed

subsection \<open>The attribute texts of an element\<close>

text \<open>
  A match of the attribute pattern is a prefix of the unread text, so the raw text of
  every attribute is a part of the attribute text of its tag.
\<close>

lemma quoted_Some:
  "quoted q v = Some d \<Longrightarrow> \<exists>r. v = q # d @ q # r"
proof -
  assume a: "quoted q v = Some d"
  then obtain cs where v: "v = q # cs" and ne: "dropWhile (\<lambda>x. x \<noteq> q) cs \<noteq> []"
    and d: "d = takeWhile (\<lambda>x. x \<noteq> q) cs"
    by (auto simp: quoted_def split: list.splits if_splits)
  have "hd (dropWhile (\<lambda>x. x \<noteq> q) cs) = q"
    using ne hd_dropWhile [of "\<lambda>x. x \<noteq> q" cs] by simp
  then obtain r where "dropWhile (\<lambda>x. x \<noteq> q) cs = q # r"
    using ne by (cases "dropWhile (\<lambda>x. x \<noteq> q) cs") auto
  then have "cs = d @ q # r" using d takeWhile_dropWhile_id [of "\<lambda>x. x \<noteq> q" cs] by simp
  then show ?thesis using v by simp
qed

lemma attributeRegex_at_prefix:
  assumes "attributeRegex_at prev s = Some g"
  shows "prefix (group0 g) s"
proof -
  define nm where "nm = takeWhile (\<lambda>c. \<not> isSpace c \<and> c \<noteq> CHR ''='') s"
  define bare where "bare = takeWhile (\<lambda>c. \<not> isSpace c) s"
  define tl' where "tl' = drop (length nm) s"
  have nm: "s = nm @ tl'"
    unfolding nm_def tl'_def by (metis append_take_drop_id takeWhile_eq_take)
  have bare: "prefix bare s"
    unfolding bare_def by (metis prefixI takeWhile_dropWhile_id)
  have at: "attributeRegex_at prev s =
     (case tl' of
           c # v \<Rightarrow>
             if nm \<noteq> [] \<and> c = CHR ''='' then
               (case quoted (CHR 0x22) v of
                  Some d \<Rightarrow>
                    Some \<lparr>group0 = nm @ CHR ''='' # CHR 0x22 # d @ [CHR 0x22], group1 = Some nm,
                          group2 = Some d, group3 = None, group4 = None, group5 = None\<rparr>
                | None \<Rightarrow>
                    (case quoted (CHR 0x27) v of
                       Some q \<Rightarrow>
                         Some \<lparr>group0 = nm @ CHR ''='' # CHR 0x27 # q @ [CHR 0x27], group1 = Some nm,
                               group2 = None, group3 = Some q, group4 = None, group5 = None\<rparr>
                     | None \<Rightarrow>
                         (let u = takeWhile (\<lambda>x. x \<noteq> CHR 0x27 \<and> x \<noteq> CHR 0x22 \<and> \<not> isSpace x) v
                          in Some \<lparr>group0 = nm @ CHR ''='' # u, group1 = Some nm,
                                   group2 = None, group3 = None, group4 = Some u, group5 = None\<rparr>)))
             else if wordBoundary prev s \<and> bare \<noteq> [] then
               Some \<lparr>group0 = bare, group1 = None, group2 = None, group3 = None, group4 = None,
                     group5 = Some bare\<rparr>
             else None
         | [] \<Rightarrow>
             if wordBoundary prev s \<and> bare \<noteq> [] then
               Some \<lparr>group0 = bare, group1 = None, group2 = None, group3 = None, group4 = None,
                     group5 = Some bare\<rparr>
             else None)"
    unfolding attributeRegex_at_def nm_def bare_def tl'_def Let_def by (rule refl)
  show ?thesis
  proof (cases tl')
    case Nil
    then have "group0 g = bare" using assms unfolding at by (auto split: if_splits)
    then show ?thesis using bare by simp
  next
    case (Cons c v)
    show ?thesis
    proof (cases "nm \<noteq> [] \<and> c = CHR ''=''")
      case False
      then have "group0 g = bare" using assms Cons unfolding at by (auto split: if_splits)
      then show ?thesis using bare by simp
    next
      case True
      have s: "s = nm @ CHR ''='' # v" using nm Cons True by simp
      show ?thesis
      proof (cases "quoted (CHR 0x22) v")
        case (Some d)
        then obtain r where "v = CHR 0x22 # d @ CHR 0x22 # r" by (auto dest: quoted_Some)
        then have "s = (nm @ CHR ''='' # CHR 0x22 # d @ [CHR 0x22]) @ r" using s by simp
        moreover have "group0 g = nm @ CHR ''='' # CHR 0x22 # d @ [CHR 0x22]"
          using assms Cons True Some unfolding at by auto
        ultimately show ?thesis by (metis prefixI)
      next
        case None
        show ?thesis
        proof (cases "quoted (CHR 0x27) v")
          case (Some d)
          then obtain r where "v = CHR 0x27 # d @ CHR 0x27 # r" by (auto dest: quoted_Some)
          then have "s = (nm @ CHR ''='' # CHR 0x27 # d @ [CHR 0x27]) @ r" using s by simp
          moreover have "group0 g = nm @ CHR ''='' # CHR 0x27 # d @ [CHR 0x27]"
            using assms Cons True Some None unfolding at by auto
          ultimately show ?thesis by (metis prefixI)
        next
          case n: None
          define u where "u = takeWhile (\<lambda>x. x \<noteq> CHR 0x27 \<and> x \<noteq> CHR 0x22 \<and> \<not> isSpace x) v"
          have "group0 g = nm @ CHR ''='' # u"
            using assms Cons True None n unfolding at u_def by (auto simp: Let_def)
          moreover have "v = u @ dropWhile (\<lambda>x. x \<noteq> CHR 0x27 \<and> x \<noteq> CHR 0x22 \<and> \<not> isSpace x) v"
            unfolding u_def by simp
          then have "s = (nm @ CHR ''='' # u)
                          @ dropWhile (\<lambda>x. x \<noteq> CHR 0x27 \<and> x \<noteq> CHR 0x22 \<and> \<not> isSpace x) v"
            using s by simp
          ultimately show ?thesis by (metis prefixI)
        qed
      qed
    qed
  qed
qed

lemma attributeRegex_loop_raw:
  "a \<in> set (attributeRegex_loop prev s) \<Longrightarrow> sublist (attr_raw a) s"
proof (induction prev s rule: attributeRegex_loop.induct)
  case (1 prev)
  then show ?case by simp
next
  case (2 prev c cs)
  note step = this
  show ?case
  proof (cases "attributeRegex_at prev (c # cs)")
    case None
    then have "a \<in> set (attributeRegex_loop (Some c) cs)" using step(3) by simp
    then have "sublist (attr_raw a) cs" using step(1) [OF None] by simp
    then show ?thesis by (simp add: sublist_Cons_right)
  next
    case (Some g)
    have pre: "prefix (group0 g) (c # cs)" using Some by (rule attributeRegex_at_prefix)
    from step(3) Some consider "attr_raw a = group0 g"
      | "a \<in> set (attributeRegex_loop (Some (last (group0 g))) (drop (length (group0 g)) (c # cs)))"
      by auto
    then show ?thesis
    proof cases
      case 1
      then show ?thesis using pre by auto
    next
      case 2
      then have "sublist (attr_raw a) (drop (length (group0 g)) (c # cs))"
        using step(2) [OF Some] by simp
      moreover have "sublist (drop (length (group0 g)) (c # cs)) (c # cs)" by (rule sublist_drop)
      ultimately show ?thesis by (rule sublist_order.order_trans)
    qed
  qed
qed


lemma set_trim: "set (trim s) \<subseteq> set s"
  unfolding trim_def by (auto dest!: set_dropWhileD)

lemma parseElements_attr_raw:
  assumes "e \<in> set (parseElements s)" and "a \<in> set (attributes e)"
  shows "set (attr_raw a) \<subseteq> set s"
proof -
  obtain s' g rest where s': "set s' \<subseteq> set s" "tagStringRegex_exec s' = Some (raw e, g, rest)"
      "attributes e = attributeRegex_loop None
            (trim (drop (length (takeWhile (\<lambda>c. c \<noteq> CHR '' '') g) + 1) g))"
    using parseElements_elem [OF assms(1)] by blast
  have g: "set g \<subseteq> set s'"
    using tagStringRegex_exec_shape [OF s'(2)] by blast
  have "sublist (attr_raw a) (trim (drop (length (takeWhile (\<lambda>c. c \<noteq> CHR '' '') g) + 1) g))"
    using assms(2) s'(3) by (auto dest: attributeRegex_loop_raw)
  then have "set (attr_raw a) \<subseteq> set (trim (drop (length (takeWhile (\<lambda>c. c \<noteq> CHR '' '') g) + 1) g))"
    by (rule set_mono_sublist)
  also have "\<dots> \<subseteq> set (drop (length (takeWhile (\<lambda>c. c \<noteq> CHR '' '') g) + 1) g)"
    by (rule set_trim)
  also have "\<dots> \<subseteq> set g" by (rule set_drop_subset)
  finally show ?thesis using g s'(1) by blast
qed

subsection \<open>A rule set without rules\<close>

lemma set_join: "set (join xs) \<subseteq> insert (CHR '' '') (\<Union>x \<in> set xs. set x)"
  by (induction xs rule: join.induct) auto

lemma filterE_all: "(\<And>x. x \<in> set xs \<Longrightarrow> f x = Inr True) \<Longrightarrow> filterE f xs = Inr xs"
  by (induction xs) auto

lemma filterAttributes_no_rules:
  assumes "\<And>k. \<not> truthy (getProp attrs k)"
  shows "filterAttributes el attrs =
    Inr \<lparr>nodeName = nodeName el, attributes = attributes el,
         raw = replace (raw el) (join (map attr_raw (attributes el)))
                 (join (map attr_raw (attributes el)))\<rparr>"
proof -
  have "filterE (keepAttribute (nodeName el) (attributes el) attrs) (attributes el)
          = Inr (attributes el)"
    using assms by (intro filterE_all) (simp add: keepAttribute_def)
  then show ?thesis by (simp add: filterAttributes_def)
qed

lemma filterHtmlAttrs_forEach_plain:
  assumes "\<And>k. \<not> truthy (getProp attrs k)"
    and "\<And>e. e \<in> set els \<Longrightarrow> CHR ''$'' \<notin> set (raw e)"
    and "\<And>e a. e \<in> set els \<Longrightarrow> a \<in> set (attributes e) \<Longrightarrow> CHR ''$'' \<notin> set (attr_raw a)"
  shows "filterHtmlAttrs_forEach attrs els h = Inr h"
  using assms(2,3)
proof (induction els)
  case Nil
  show ?case by simp
next
  case (Cons e els)
  let ?j = "join (map attr_raw (attributes e))"
  have "CHR ''$'' \<notin> set ?j"
    using set_join [of "map attr_raw (attributes e)"] Cons.prems(2) [of e] by auto
  then have "replace (raw e) ?j ?j = raw e" by (rule replace_same)
  then have fa: "filterAttributes e attrs = Inr \<lparr>nodeName = nodeName e, attributes = attributes e, raw = raw e\<rparr>"
    using filterAttributes_no_rules [OF assms(1), of e] by simp
  have "replace h (raw e) (raw e) = h"
    using Cons.prems(1) [of e] by (intro replace_same) simp
  moreover have "filterHtmlAttrs_forEach attrs els h = Inr h"
    using Cons.prems by (intro Cons.IH) auto
  ultimately show ?case using fa by simp
qed

lemma filterHtmlAttrs_no_rules_plain:
  assumes "\<And>k. \<not> truthy (getProp attrs k)" and "CHR ''$'' \<notin> set s"
  shows "filterHtmlAttrs s attrs = Inr s"
proof (cases "truthy attrs")
  case False
  then show ?thesis by (simp add: filterHtmlAttrs_def)
next
  case True
  have "filterHtmlAttrs_forEach attrs (parseElements s) s = Inr s"
  proof (rule filterHtmlAttrs_forEach_plain [OF assms(1)])
    fix e assume "e \<in> set (parseElements s)"
    then show "CHR ''$'' \<notin> set (raw e)" using parseElements_raw(2) assms(2) by blast
  next
    fix e a assume "e \<in> set (parseElements s)" and "a \<in> set (attributes e)"
    then show "CHR ''$'' \<notin> set (attr_raw a)" using parseElements_attr_raw assms(2) by blast
  qed
  then show ?thesis using True by (simp add: filterHtmlAttrs_def)
qed

section \<open>Claims\<close>

subsection \<open>C1\<close>

text \<open>
  C1 (amended). \<^verbatim>\<open>filterAttributes\<close> keeps an attribute exactly when the value registered
  under its alias-resolved name is falsy (no value, \<^verbatim>\<open>undefined\<close>, \<^verbatim>\<open>null\<close>, \<^verbatim>\<open>false\<close>, \<^verbatim>\<open>0\<close>
  or the empty string) or \<^verbatim>\<open>matches\<close> returns \<^verbatim>\<open>false\<close> or \<^verbatim>\<open>undefined\<close> for it; it drops the
  attribute exactly when that value is truthy and \<^verbatim>\<open>matches\<close> returns \<^verbatim>\<open>true\<close>. The call
  returns whenever no truthy rule value contains \<^verbatim>\<open>null\<close>.
\<close>

theorem C1_attribute_kept_iff:
  "(\<forall>el'. filterAttributes el attrs = Inr el' \<longrightarrow>
      attributes el' =
        filter (\<lambda>a. \<not> truthy (getProp attrs (ruleKey (attr_name a)))
                   \<or> matches (nodeName el) (attributes el) (attr_value a)
                        (getProp attrs (ruleKey (attr_name a))) = Inr (JBool False)
                   \<or> matches (nodeName el) (attributes el) (attr_value a)
                        (getProp attrs (ruleKey (attr_name a))) = Inr JUndefined)
          (attributes el))
   \<and> ((\<forall>k. \<not> truthy (getProp attrs k) \<or> noNull (getProp attrs k)) \<longrightarrow>
        (\<exists>el'. filterAttributes el attrs = Inr el'))"
proof (intro conjI allI impI)
  fix el'
  assume "filterAttributes el attrs = Inr el'"
  then show "attributes el' =
        filter (\<lambda>a. \<not> truthy (getProp attrs (ruleKey (attr_name a)))
                   \<or> matches (nodeName el) (attributes el) (attr_value a)
                        (getProp attrs (ruleKey (attr_name a))) = Inr (JBool False)
                   \<or> matches (nodeName el) (attributes el) (attr_value a)
                        (getProp attrs (ruleKey (attr_name a))) = Inr JUndefined)
          (attributes el)"
    using filterAttributes_Inr(1) [of el attrs el'] by (simp add: keepAttribute_True_iff)
next
  assume "\<forall>k. \<not> truthy (getProp attrs k) \<or> noNull (getProp attrs k)"
  then have "\<And>a. \<exists>b. keepAttribute (nodeName el) (attributes el) attrs a = Inr b"
    by (intro keepAttribute_total) blast
  then obtain ys where "filterE (keepAttribute (nodeName el) (attributes el) attrs) (attributes el) = Inr ys"
    using filterE_total [of "attributes el" "keepAttribute (nodeName el) (attributes el) attrs"] by blast
  then show "\<exists>el'. filterAttributes el attrs = Inr el'" by (simp add: filterAttributes_def)
qed

text \<open>
  C1, witness: \<^verbatim>\<open><input type="text" class="foo" disabled>\<close> under the rule set
  \<^verbatim>\<open>{className: {nodeName: 'input'}, disabled: ''}\<close> keeps \<^verbatim>\<open>type\<close> and \<^verbatim>\<open>disabled\<close>.
\<close>

theorem C1_witness:
  "filterAttributes
     \<lparr>nodeName = ''input'',
      attributes = [\<lparr>attr_name = ''type'', attr_value = ''text'', attr_raw = ''type=\"text\"''\<rparr>,
                    \<lparr>attr_name = ''class'', attr_value = ''foo'', attr_raw = ''class=\"foo\"''\<rparr>,
                    \<lparr>attr_name = ''disabled'', attr_value = [], attr_raw = ''disabled''\<rparr>],
      raw = ''<input type=\"text\" class=\"foo\" disabled>''\<rparr>
     (JObj [(''className'', JObj [(''nodeName'', JStr ''input'')]), (''disabled'', JStr [])])
   = Inr \<lparr>nodeName = ''input'',
           attributes = [\<lparr>attr_name = ''type'', attr_value = ''text'', attr_raw = ''type=\"text\"''\<rparr>,
                         \<lparr>attr_name = ''disabled'', attr_value = [], attr_raw = ''disabled''\<rparr>],
           raw = ''<input type=\"text\" disabled>''\<rparr>
   \<and> filter (\<lambda>a. \<not> truthy (getProp (JObj [(''className'', JObj [(''nodeName'', JStr ''input'')]),
                                          (''disabled'', JStr [])]) (ruleKey (attr_name a)))
               \<or> matches ''input''
                    [\<lparr>attr_name = ''type'', attr_value = ''text'', attr_raw = ''type=\"text\"''\<rparr>,
                     \<lparr>attr_name = ''class'', attr_value = ''foo'', attr_raw = ''class=\"foo\"''\<rparr>,
                     \<lparr>attr_name = ''disabled'', attr_value = [], attr_raw = ''disabled''\<rparr>]
                    (attr_value a)
                    (getProp (JObj [(''className'', JObj [(''nodeName'', JStr ''input'')]),
                                    (''disabled'', JStr [])]) (ruleKey (attr_name a)))
                  = Inr (JBool False)
               \<or> matches ''input''
                    [\<lparr>attr_name = ''type'', attr_value = ''text'', attr_raw = ''type=\"text\"''\<rparr>,
                     \<lparr>attr_name = ''class'', attr_value = ''foo'', attr_raw = ''class=\"foo\"''\<rparr>,
                     \<lparr>attr_name = ''disabled'', attr_value = [], attr_raw = ''disabled''\<rparr>]
                    (attr_value a)
                    (getProp (JObj [(''className'', JObj [(''nodeName'', JStr ''input'')]),
                                    (''disabled'', JStr [])]) (ruleKey (attr_name a)))
                  = Inr JUndefined)
       [\<lparr>attr_name = ''type'', attr_value = ''text'', attr_raw = ''type=\"text\"''\<rparr>,
        \<lparr>attr_name = ''class'', attr_value = ''foo'', attr_raw = ''class=\"foo\"''\<rparr>,
        \<lparr>attr_name = ''disabled'', attr_value = [], attr_raw = ''disabled''\<rparr>]
     = [\<lparr>attr_name = ''type'', attr_value = ''text'', attr_raw = ''type=\"text\"''\<rparr>,
        \<lparr>attr_name = ''disabled'', attr_value = [], attr_raw = ''disabled''\<rparr>]"
proof -
  let ?el = "\<lparr>nodeName = ''input'',
      attributes = [\<lparr>attr_name = ''type'', attr_value = ''text'', attr_raw = ''type=\"text\"''\<rparr>,
                    \<lparr>attr_name = ''class'', attr_value = ''foo'', attr_raw = ''class=\"foo\"''\<rparr>,
                    \<lparr>attr_name = ''disabled'', attr_value = [], attr_raw = ''disabled''\<rparr>],
      raw = ''<input type=\"text\" class=\"foo\" disabled>''\<rparr>"
  let ?attrs = "JObj [(''className'', JObj [(''nodeName'', JStr ''input'')]), (''disabled'', JStr [])]"
  let ?el' = "\<lparr>nodeName = ''input'',
           attributes = [\<lparr>attr_name = ''type'', attr_value = ''text'', attr_raw = ''type=\"text\"''\<rparr>,
                         \<lparr>attr_name = ''disabled'', attr_value = [], attr_raw = ''disabled''\<rparr>],
           raw = ''<input type=\"text\" disabled>''\<rparr>"
  have total: "\<forall>k. \<not> truthy (getProp ?attrs k) \<or> noNull (getProp ?attrs k)"
    by simp
  have run: "filterAttributes ?el ?attrs = Inr ?el'"
    by code_simp
  from C1_attribute_kept_iff [of ?el ?attrs] total run
  have "attributes ?el' =
        filter (\<lambda>a. \<not> truthy (getProp ?attrs (ruleKey (attr_name a)))
                   \<or> matches (nodeName ?el) (attributes ?el) (attr_value a)
                        (getProp ?attrs (ruleKey (attr_name a))) = Inr (JBool False)
                   \<or> matches (nodeName ?el) (attributes ?el) (attr_value a)
                        (getProp ?attrs (ruleKey (attr_name a))) = Inr JUndefined)
          (attributes ?el)"
    by blast
  then show ?thesis using run by (simp del: getProp.simps matches.simps filter.simps)
qed

text \<open>
  C1 as stated fails: in \<^verbatim>\<open><input disabled>\<close> under the rule set \<^verbatim>\<open>{disabled: ''}\<close> a string
  matcher is registered for \<^verbatim>\<open>disabled\<close>, \<^verbatim>\<open>matches\<close> evaluates to \<^verbatim>\<open>true\<close> for it (the
  value of a bare attribute is the empty string), and the attribute is kept: the guard
  \<^verbatim>\<open>if (!matcher)\<close> keeps the attribute before the predicate runs.
\<close>

theorem C1_counterexample:
  "parseElements ''<input disabled>''
     = [\<lparr>nodeName = ''input'',
         attributes = [\<lparr>attr_name = ''disabled'', attr_value = [], attr_raw = ''disabled''\<rparr>],
         raw = ''<input disabled>''\<rparr>]
   \<and> getProp (JObj [(''disabled'', JStr [])]) (ruleKey ''disabled'') = JStr []
   \<and> matches ''input'' [\<lparr>attr_name = ''disabled'', attr_value = [], attr_raw = ''disabled''\<rparr>]
         [] (JStr []) = Inr (JBool True)
   \<and> filterAttributes
         \<lparr>nodeName = ''input'',
          attributes = [\<lparr>attr_name = ''disabled'', attr_value = [], attr_raw = ''disabled''\<rparr>],
          raw = ''<input disabled>''\<rparr>
         (JObj [(''disabled'', JStr [])])
       = Inr \<lparr>nodeName = ''input'',
               attributes = [\<lparr>attr_name = ''disabled'', attr_value = [], attr_raw = ''disabled''\<rparr>],
               raw = ''<input disabled>''\<rparr>
   \<and> filterHtmlAttrs ''<input disabled>'' (JObj [(''disabled'', JStr [])])
       = Inr ''<input disabled>''"
  by code_simp

subsection \<open>C2\<close>

text \<open>
  C2 (amended). \<^verbatim>\<open>filterHtmlAttrs('<div data-x="y">t</div>', {'data-x': true})\<close> returns
  \<^verbatim>\<open><div >t</div>\<close>: the boolean matcher removes the attribute whatever its value, and the
  space that stood before the attribute stays, since the text of all the attributes is
  replaced by the empty text of none.
\<close>

theorem C2_boolean_matcher_example:
  "filterHtmlAttrs ''<div data-x=\"y\">t</div>'' (JObj [(''data-x'', JBool True)])
     = Inr ''<div >t</div>''"
  by code_simp

text \<open>
  C2 as stated fails: the call returns \<^verbatim>\<open><div >t</div>\<close>, not \<^verbatim>\<open><div>t</div>\<close>.
\<close>

theorem C2_counterexample:
  "filterHtmlAttrs ''<div data-x=\"y\">t</div>'' (JObj [(''data-x'', JBool True)])
     \<noteq> Inr ''<div>t</div>''"
  by code_simp

subsection \<open>C3\<close>

text \<open>
  C3 (amended). For every element and every non-array object matcher, \<^verbatim>\<open>matches\<close> returns
  \<^verbatim>\<open>true\<close> exactly when (i) the matcher's \<^verbatim>\<open>nodeName\<close> is falsy (absent or empty) or equals
  the element's node name, and (ii) for each key of the matcher's \<^verbatim>\<open>attributes\<close> that names
  an attribute of the element, the first such attribute's value recursively satisfies the
  nested matcher; a key that names no attribute of the element is skipped. When the matcher
  is built from booleans, strings, arrays and objects only, the returned value is exactly
  that conjunction.
\<close>

theorem C3_structured_matcher_conjunction:
  "(matches n a v (JObj ps) = Inr (JBool True) \<longleftrightarrow>
     (truthy (getProp (JObj ps) ''nodeName'') \<longrightarrow> getProp (JObj ps) ''nodeName'' = JStr n)
     \<and> (\<forall>k \<in> set (keys (getProp (JObj ps) ''attributes'')).
          \<forall>attr. find (\<lambda>x. attr_name x = k) a = Some attr \<longrightarrow>
            matches n a (attr_value attr) (getProp (getProp (JObj ps) ''attributes'') k)
              = Inr (JBool True)))
   \<and> (recognized (JObj ps) \<longrightarrow>
        matches n a v (JObj ps) = Inr (JBool (
          (truthy (getProp (JObj ps) ''nodeName'') \<longrightarrow> getProp (JObj ps) ''nodeName'' = JStr n)
          \<and> (\<forall>k \<in> set (keys (getProp (JObj ps) ''attributes'')).
               \<forall>attr. find (\<lambda>x. attr_name x = k) a = Some attr \<longrightarrow>
                 matches n a (attr_value attr) (getProp (getProp (JObj ps) ''attributes'') k)
                   = Inr (JBool True)))))"
proof (intro conjI impI)
  show "matches n a v (JObj ps) = Inr (JBool True) \<longleftrightarrow>
     (truthy (getProp (JObj ps) ''nodeName'') \<longrightarrow> getProp (JObj ps) ''nodeName'' = JStr n)
     \<and> (\<forall>k \<in> set (keys (getProp (JObj ps) ''attributes'')).
          \<forall>attr. find (\<lambda>x. attr_name x = k) a = Some attr \<longrightarrow>
            matches n a (attr_value attr) (getProp (getProp (JObj ps) ''attributes'') k)
              = Inr (JBool True))"
    by (rule matches_JObj_true_iff)
next
  assume "recognized (JObj ps)"
  then obtain b where b: "matches n a v (JObj ps) = Inr (JBool b)"
    using recognized_matches(1) by blast
  then have "b \<longleftrightarrow> matches n a v (JObj ps) = Inr (JBool True)" by auto
  then show "matches n a v (JObj ps) = Inr (JBool (
          (truthy (getProp (JObj ps) ''nodeName'') \<longrightarrow> getProp (JObj ps) ''nodeName'' = JStr n)
          \<and> (\<forall>k \<in> set (keys (getProp (JObj ps) ''attributes'')).
               \<forall>attr. find (\<lambda>x. attr_name x = k) a = Some attr \<longrightarrow>
                 matches n a (attr_value attr) (getProp (getProp (JObj ps) ''attributes'') k)
                   = Inr (JBool True))))"
    using b matches_JObj_true_iff [of n a v ps] by (simp del: getProp.simps matches.simps)
qed

text \<open>
  C3, witness: the matcher \<^verbatim>\<open>{nodeName: 'input', attributes: {type: 'text', lang: 'en'}}\<close> on
  \<^verbatim>\<open><input type=text class=foo>\<close>. The element has no \<^verbatim>\<open>lang\<close> attribute and the matcher
  still matches.
\<close>

theorem C3_witness:
  "recognized (JObj [(''nodeName'', JStr ''input''),
       (''attributes'', JObj [(''type'', JStr ''text''), (''lang'', JStr ''en'')])])
   \<and> matches ''input''
        [\<lparr>attr_name = ''type'', attr_value = ''text'', attr_raw = ''type=text''\<rparr>,
         \<lparr>attr_name = ''class'', attr_value = ''foo'', attr_raw = ''class=foo''\<rparr>] ''foo''
        (JObj [(''nodeName'', JStr ''input''),
               (''attributes'', JObj [(''type'', JStr ''text''), (''lang'', JStr ''en'')])])
      = Inr (JBool True)
   \<and> matches ''input''
        [\<lparr>attr_name = ''type'', attr_value = ''text'', attr_raw = ''type=text''\<rparr>,
         \<lparr>attr_name = ''class'', attr_value = ''foo'', attr_raw = ''class=foo''\<rparr>] ''text''
        (JStr ''text'') = Inr (JBool True)"
  using C3_structured_matcher_conjunction [of "''input''"
        "[\<lparr>attr_name = ''type'', attr_value = ''text'', attr_raw = ''type=text''\<rparr>,
         \<lparr>attr_name = ''class'', attr_value = ''foo'', attr_raw = ''class=foo''\<rparr>]" "''foo''"
        "[(''nodeName'', JStr ''input''),
               (''attributes'', JObj [(''type'', JStr ''text''), (''lang'', JStr ''en'')])]"]
  by simp

text \<open>
  C3 as stated fails: the matcher \<^verbatim>\<open>{nodeName: ''}\<close> has a \<^verbatim>\<open>nodeName\<close> key that differs from
  the node name \<^verbatim>\<open>div\<close>, and \<^verbatim>\<open>matches\<close> returns \<^verbatim>\<open>true\<close>: the program tests the key's
  value for truthiness.
\<close>

theorem C3_counterexample:
  "getProp (JObj [(''nodeName'', JStr [])]) ''nodeName'' = JStr []
   \<and> JStr [] \<noteq> JStr ''div''
   \<and> matches ''div'' [] ''x'' (JObj [(''nodeName'', JStr [])]) = Inr (JBool True)"
  by simp

subsection \<open>C4\<close>

text \<open>
  C4, first half: an absent rule set is the identity.
\<close>

lemma filterHtmlAttrs_absent: "filterHtmlAttrs s JUndefined = Inr s"
  by (simp add: filterHtmlAttrs_def)

text \<open>
  C4, second half, away from the defect: the empty rule set \<^verbatim>\<open>{}\<close> is the identity on every
  string without a dollar sign.
\<close>

lemma filterHtmlAttrs_empty_plain:
  "CHR ''$'' \<notin> set s \<Longrightarrow> filterHtmlAttrs s (JObj []) = Inr s"
  by (rule filterHtmlAttrs_no_rules_plain) simp_all

text \<open>
  C4, second half, at \<^verbatim>\<open><div a="$$">\<close> with the empty rule set \<^verbatim>\<open>{}\<close>: nothing is filtered,
  yet the attribute text is passed to \<^verbatim>\<open>replace\<close> as the replacement, where \<^verbatim>\<open>$$\<close> stands
  for one dollar sign, and the result is \<^verbatim>\<open><div a="$">\<close>.
\<close>

theorem C4_empty_rule_set_dollar:
  "filterHtmlAttrs ''<div a=\"$$\">'' (JObj []) = Inr ''<div a=\"$\">''
   \<and> filterHtmlAttrs ''<div a=\"$$\">'' JUndefined = Inr ''<div a=\"$$\">''"
  by code_simp

subsection \<open>C5\<close>

text \<open>
  C5 on every attribute name that is not the name of a member of \<^verbatim>\<open>Object.prototype\<close>: the
  rule lookup applies the alias table forward only. Whether the attribute \<^verbatim>\<open>for\<close> is kept
  depends on the rule set only through the rule keyed \<^verbatim>\<open>htmlFor\<close>, and the attribute
  \<^verbatim>\<open>class\<close> only through the rule keyed \<^verbatim>\<open>className\<close>; every other such attribute depends
  on the rule keyed by its own name. Rules keyed \<^verbatim>\<open>for\<close> or \<^verbatim>\<open>class\<close> are never read: two
  rule sets that agree on every other key give the same result on every input.
\<close>

lemma alias_forward_only:
  "(attr_name a = ''for'' \<longrightarrow> getProp attrs1 ''htmlFor'' = getProp attrs2 ''htmlFor'' \<longrightarrow>
      keepAttribute n as attrs1 a = keepAttribute n as attrs2 a)
   \<and> (attr_name a = ''class'' \<longrightarrow> getProp attrs1 ''className'' = getProp attrs2 ''className'' \<longrightarrow>
      keepAttribute n as attrs1 a = keepAttribute n as attrs2 a)
   \<and> (attr_name a \<noteq> ''for'' \<longrightarrow> attr_name a \<noteq> ''class'' \<longrightarrow> inheritedKey (attr_name a) = None \<longrightarrow>
      getProp attrs1 (attr_name a) = getProp attrs2 (attr_name a) \<longrightarrow>
      keepAttribute n as attrs1 a = keepAttribute n as attrs2 a)
   \<and> ((\<forall>k. k \<noteq> ''for'' \<longrightarrow> k \<noteq> ''class'' \<longrightarrow> getProp attrs1 k = getProp attrs2 k) \<longrightarrow>
      truthy attrs1 = truthy attrs2 \<longrightarrow>
      filterHtmlAttrs htmlString attrs1 = filterHtmlAttrs htmlString attrs2)"
proof (intro conjI impI)
  assume "attr_name a = ''for''" and "getProp attrs1 ''htmlFor'' = getProp attrs2 ''htmlFor''"
  then show "keepAttribute n as attrs1 a = keepAttribute n as attrs2 a"
    by (intro keepAttribute_depends) (simp add: ruleKey_cases)
next
  assume "attr_name a = ''class''" and "getProp attrs1 ''className'' = getProp attrs2 ''className''"
  then show "keepAttribute n as attrs1 a = keepAttribute n as attrs2 a"
    by (intro keepAttribute_depends) (simp add: ruleKey_cases)
next
  assume "attr_name a \<noteq> ''for''" and "attr_name a \<noteq> ''class''"
    and "inheritedKey (attr_name a) = None"
    and "getProp attrs1 (attr_name a) = getProp attrs2 (attr_name a)"
  then show "keepAttribute n as attrs1 a = keepAttribute n as attrs2 a"
    by (intro keepAttribute_depends) (simp add: ruleKey_cases)
next
  assume "\<forall>k. k \<noteq> ''for'' \<longrightarrow> k \<noteq> ''class'' \<longrightarrow> getProp attrs1 k = getProp attrs2 k"
    and "truthy attrs1 = truthy attrs2"
  then show "filterHtmlAttrs htmlString attrs1 = filterHtmlAttrs htmlString attrs2"
    using filterHtmlAttrs_forEach_frame [of attrs1 attrs2 "parseElements htmlString" htmlString]
    by (simp add: filterHtmlAttrs_def)
qed

text \<open>
  On \<^verbatim>\<open><label for="x" class="y">\<close> the rule set \<^verbatim>\<open>{for: true, class: true}\<close> removes nothing,
  \<^verbatim>\<open>{htmlFor: true}\<close> removes \<^verbatim>\<open>for\<close> and \<^verbatim>\<open>{className: true}\<close> removes \<^verbatim>\<open>class\<close>.
\<close>

lemma alias_forward_only_example:
  "filterHtmlAttrs ''<label for=\"x\" class=\"y\">'' (JObj [(''for'', JBool True), (''class'', JBool True)])
      = Inr ''<label for=\"x\" class=\"y\">''
   \<and> filterHtmlAttrs ''<label for=\"x\" class=\"y\">'' (JObj [(''htmlFor'', JBool True)])
      = Inr ''<label class=\"y\">''
   \<and> filterHtmlAttrs ''<label for=\"x\" class=\"y\">'' (JObj [(''className'', JBool True)])
      = Inr ''<label for=\"x\">''"
  by code_simp

text \<open>
  C5 at \<^verbatim>\<open><div constructor="x">\<close> with the rule set \<^verbatim>\<open>{constructor: true}\<close>: the attribute name
  \<^verbatim>\<open>constructor\<close> is not looked up verbatim. \<^verbatim>\<open>attrMap\<close> is an object literal, so
  \<^verbatim>\<open>attrMap['constructor']\<close> is the inherited \<^verbatim>\<open>Object\<close> function, which is truthy; the rule
  set is read under that function's source text, where nothing is registered, and the
  attribute stays. The same rule set keyed by an ordinary name, \<^verbatim>\<open>{id: true}\<close> on
  \<^verbatim>\<open><div id="x">\<close>, removes the attribute.
\<close>

theorem C5_inherited_name_not_verbatim:
  "ruleKey ''constructor'' = ''function Object() { [native code] }''
   \<and> filterHtmlAttrs ''<div constructor=\"x\">'' (JObj [(''constructor'', JBool True)])
       = Inr ''<div constructor=\"x\">''
   \<and> ruleKey ''id'' = ''id''
   \<and> filterHtmlAttrs ''<div id=\"x\">'' (JObj [(''id'', JBool True)]) = Inr ''<div >''"
  by code_simp

subsection \<open>C6\<close>

text \<open>
  C6 at \<^verbatim>\<open><a a>\<close> with the rule set \<^verbatim>\<open>{a: true}\<close>: the first call returns \<^verbatim>\<open>< a>\<close>, because
  the attribute text \<^verbatim>\<open>a\<close> is first found in the tag name, and a second call returns
  \<^verbatim>\<open>< >\<close>.
\<close>

theorem C6_not_idempotent:
  "filterHtmlAttrs ''<a a>'' (JObj [(''a'', JBool True)]) = Inr ''< a>''
   \<and> filterHtmlAttrs ''< a>'' (JObj [(''a'', JBool True)]) = Inr ''< >''"
  by code_simp

text \<open>
  Two more inputs on which a second call changes the result of the first: an attribute
  value with five dollar signs under the empty rule set, and a structured matcher whose
  sub-attribute the first call removes.
\<close>

lemma not_idempotent_dollar:
  "filterHtmlAttrs ''<i a=$$$$$>'' (JObj []) = Inr ''<i a=$$>''
   \<and> filterHtmlAttrs ''<i a=$$>'' (JObj []) = Inr ''<i a=$>''"
  by code_simp

lemma not_idempotent_structured:
  "filterHtmlAttrs ''<div a b=x>''
      (JObj [(''a'', JObj [(''attributes'', JObj [(''b'', JStr ''y'')])]), (''b'', JBool True)])
     = Inr ''<div a>''
   \<and> filterHtmlAttrs ''<div a>''
      (JObj [(''a'', JObj [(''attributes'', JObj [(''b'', JStr ''y'')])]), (''b'', JBool True)])
     = Inr ''<div >''"
  by code_simp

subsection \<open>C7\<close>

text \<open>
  C7 (amended). \<^verbatim>\<open>parseElements\<close> never produces an element for a closing tag: the text of
  every element starts with \<^verbatim>\<open><\<close> and a character other than \<^verbatim>\<open>/\<close>. Consequently, when no
  opening tag of the input contains a second \<^verbatim>\<open><\<close>, every closing tag \<^verbatim>\<open></d>\<close> of the input,
  with no \<^verbatim>\<open><\<close> or \<^verbatim>\<open>>\<close> in \<^verbatim>\<open>d\<close>, still stands in the output as written; so does the
  \<^verbatim>\<open></div>\<close> of \<^verbatim>\<open><div data-x="y">t</div>\<close> under \<^verbatim>\<open>{'data-x': true}\<close>.
\<close>

theorem C7_closing_tags:
  "(\<forall>e \<in> set (parseElements htmlString). \<not> prefix ''</'' (raw e))
   \<and> (filterHtmlAttrs htmlString filterAttrs = Inr out \<longrightarrow>
        sublist (''</'' @ d @ ''>'') htmlString \<longrightarrow>
        CHR ''<'' \<notin> set d \<longrightarrow> CHR ''>'' \<notin> set d \<longrightarrow>
        (\<forall>e \<in> set (parseElements htmlString). CHR ''<'' \<notin> set (tl (raw e))) \<longrightarrow>
        sublist (''</'' @ d @ ''>'') out)"
proof (intro conjI ballI impI)
  fix e assume "e \<in> set (parseElements htmlString)"
  then obtain x y where "raw e = CHR ''<'' # x # y @ ''>''" "x \<noteq> CHR ''/''"
    using parseElements_raw(1) by blast
  then show "\<not> prefix ''</'' (raw e)" by simp
next
  assume run: "filterHtmlAttrs htmlString filterAttrs = Inr out"
    and sub: "sublist (''</'' @ d @ ''>'') htmlString"
    and d: "CHR ''<'' \<notin> set d" "CHR ''>'' \<notin> set d"
    and tags: "\<forall>e \<in> set (parseElements htmlString). CHR ''<'' \<notin> set (tl (raw e))"
  show "sublist (''</'' @ d @ ''>'') out"
  proof (cases "truthy filterAttrs")
    case False
    then show ?thesis using run sub by (simp add: filterHtmlAttrs_def)
  next
    case True
    then have loop: "filterHtmlAttrs_forEach filterAttrs (parseElements htmlString) htmlString = Inr out"
      using run by (simp add: filterHtmlAttrs_def)
    have shape: "\<exists>mp. raw e = CHR ''<'' # mp @ ''>'' \<and> CHR ''<'' \<notin> set mp \<and> CHR ''>'' \<notin> set mp
                  \<and> CHR ''/'' # d \<noteq> mp"
      if e: "e \<in> set (parseElements htmlString)" for e
    proof -
      obtain x y where xy: "raw e = CHR ''<'' # x # y @ ''>''" "x \<noteq> CHR ''/''"
          "CHR ''>'' \<notin> set (x # y)"
        using parseElements_raw(1) [OF e] by blast
      moreover have "CHR ''<'' \<notin> set (x # y)" using tags e xy(1) by auto
      ultimately show ?thesis by (intro exI [of _ "x # y"]) auto
    qed
    show ?thesis
      using loop sub _ _ _ shape
      by (rule filterHtmlAttrs_forEach_keeps_bracket [where mc = "CHR ''/'' # d"]) (use d in auto)
  qed
qed

text \<open>
  C7, witness: \<^verbatim>\<open><div data-x="y">t</div>\<close> under \<^verbatim>\<open>{'data-x': true}\<close>.
\<close>

theorem C7_witness:
  "parseElements ''<div data-x=\"y\">t</div>''
     = [\<lparr>nodeName = ''div'',
         attributes = [\<lparr>attr_name = ''data-x'', attr_value = ''y'', attr_raw = ''data-x=\"y\"''\<rparr>],
         raw = ''<div data-x=\"y\">''\<rparr>]
   \<and> \<not> prefix ''</'' ''<div data-x=\"y\">''
   \<and> filterHtmlAttrs ''<div data-x=\"y\">t</div>'' (JObj [(''data-x'', JBool True)])
       = Inr ''<div >t</div>''
   \<and> sublist ''</div>'' ''<div >t</div>''"
proof -
  let ?s = "''<div data-x=\"y\">t</div>''"
  let ?el = "\<lparr>nodeName = ''div'',
         attributes = [\<lparr>attr_name = ''data-x'', attr_value = ''y'', attr_raw = ''data-x=\"y\"''\<rparr>],
         raw = ''<div data-x=\"y\">''\<rparr>"
  have parse: "parseElements ?s = [?el]"
    by code_simp
  have run: "filterHtmlAttrs ?s (JObj [(''data-x'', JBool True)]) = Inr ''<div >t</div>''"
    by code_simp
  have sub: "sublist (''</'' @ ''div'' @ ''>'') ?s"
    by code_simp
  have d: "CHR ''<'' \<notin> set ''div''" "CHR ''>'' \<notin> set ''div''"
    by simp_all
  have tags: "\<forall>e \<in> set (parseElements ?s). CHR ''<'' \<notin> set (tl (raw e))"
    unfolding parse by simp
  have mem: "?el \<in> set (parseElements ?s)"
    unfolding parse by simp
  from C7_closing_tags [of ?s "JObj [(''data-x'', JBool True)]" "''<div >t</div>''" "''div''"]
  have "\<not> prefix ''</'' (raw ?el)" and "sublist (''</'' @ ''div'' @ ''>'') ''<div >t</div>''"
    using run sub d tags mem by blast+
  then show ?thesis using parse run by simp
qed

text \<open>
  C7 as stated fails: in \<^verbatim>\<open></a<b x><b x>\<close> the first bracketed match is \<^verbatim>\<open></a<b x>\<close>, whose inner
  content starts with \<^verbatim>\<open>/\<close>, and it yields no element; the only element is \<^verbatim>\<open><b x>\<close>.
  Under \<^verbatim>\<open>{x: true}\<close> its text is first found inside the closing tag, and the output
  \<^verbatim>\<open></a<b ><b x>\<close> no longer contains the closing tag as written.
\<close>

theorem C7_counterexample:
  "tagStringRegex_exec ''</a<b x><b x>'' = Some (''</a<b x>'', ''/a<b x'', ''<b x>'')
   \<and> parseElements ''</a<b x><b x>''
       = [\<lparr>nodeName = ''b'',
           attributes = [\<lparr>attr_name = ''x'', attr_value = [], attr_raw = ''x''\<rparr>],
           raw = ''<b x>''\<rparr>]
   \<and> filterHtmlAttrs ''</a<b x><b x>'' (JObj [(''x'', JBool True)]) = Inr ''</a<b ><b x>''
   \<and> \<not> sublist ''</a<b x>'' ''</a<b ><b x>''"
  by code_simp

subsection \<open>C8\<close>

text \<open>
  C8, on the attribute list. An attribute whose governing matcher is falsy (\<^verbatim>\<open>undefined\<close>,
  \<^verbatim>\<open>false\<close>, \<^verbatim>\<open>null\<close>, \<^verbatim>\<open>0\<close>, the empty string), or of a type that \<^verbatim>\<open>matches\<close> does not
  recognise (a number, a function), is kept in the attribute list and its callback raises
  no fault: a falsy matcher is no rule, and for an unrecognised type \<^verbatim>\<open>matches\<close> falls
  through and returns \<^verbatim>\<open>undefined\<close>. This says nothing yet of the text that
  \<^verbatim>\<open>filterHtmlAttrs\<close> returns.
\<close>

lemma falsy_or_unrecognized_matcher_keeps:
  assumes "a \<in> set (attributes el)"
    and "\<not> truthy (getProp attrs (ruleKey (attr_name a)))
         \<or> typeof (getProp attrs (ruleKey (attr_name a))) \<notin> {''boolean'', ''string'', ''object''}"
  shows "keepAttribute (nodeName el) (attributes el) attrs a = Inr True
         \<and> (typeof (getProp attrs (ruleKey (attr_name a))) \<notin> {''boolean'', ''string'', ''object''}
              \<longrightarrow> matches (nodeName el) (attributes el) (attr_value a)
                    (getProp attrs (ruleKey (attr_name a))) = Inr JUndefined)
         \<and> (\<forall>el'. filterAttributes el attrs = Inr el' \<longrightarrow> a \<in> set (attributes el'))"
proof -
  let ?m = "getProp attrs (ruleKey (attr_name a))"
  have fall: "matches (nodeName el) (attributes el) (attr_value a) ?m = Inr JUndefined"
    if "typeof ?m \<notin> {''boolean'', ''string'', ''object''}"
    using that by (cases ?m) simp_all
  have keep: "keepAttribute (nodeName el) (attributes el) attrs a = Inr True"
  proof (cases "truthy ?m")
    case False
    then show ?thesis by (simp add: keepAttribute_def)
  next
    case True
    then have "typeof ?m \<notin> {''boolean'', ''string'', ''object''}" using assms(2) by simp
    then have "matches (nodeName el) (attributes el) (attr_value a) ?m = Inr JUndefined"
      by (rule fall)
    then show ?thesis by (simp add: keepAttribute_def Let_def)
  qed
  have "a \<in> set (attributes el')" if "filterAttributes el attrs = Inr el'" for el'
    using filterAttributes_Inr(1) [OF that] keep assms(1) by simp
  then show ?thesis using keep fall by blast
qed

text \<open>
  For example \<^verbatim>\<open><div data-x=y id=z>\<close> under \<^verbatim>\<open>{'data-x': 0, id: true}\<close>: the number \<^verbatim>\<open>0\<close> is
  falsy and of an unrecognised type, and \<^verbatim>\<open>data-x\<close> stays in the list.
\<close>

lemma falsy_or_unrecognized_matcher_keeps_example:
  "keepAttribute ''div''
     [\<lparr>attr_name = ''data-x'', attr_value = ''y'', attr_raw = ''data-x=y''\<rparr>,
      \<lparr>attr_name = ''id'', attr_value = ''z'', attr_raw = ''id=z''\<rparr>]
     (JObj [(''data-x'', JNum 0), (''id'', JBool True)])
     \<lparr>attr_name = ''data-x'', attr_value = ''y'', attr_raw = ''data-x=y''\<rparr> = Inr True
   \<and> filterAttributes
        \<lparr>nodeName = ''div'',
         attributes = [\<lparr>attr_name = ''data-x'', attr_value = ''y'', attr_raw = ''data-x=y''\<rparr>,
                       \<lparr>attr_name = ''id'', attr_value = ''z'', attr_raw = ''id=z''\<rparr>],
         raw = ''<div data-x=y id=z>''\<rparr>
        (JObj [(''data-x'', JNum 0), (''id'', JBool True)])
      = Inr \<lparr>nodeName = ''div'',
              attributes = [\<lparr>attr_name = ''data-x'', attr_value = ''y'', attr_raw = ''data-x=y''\<rparr>],
              raw = ''<div data-x=y>''\<rparr>
   \<and> \<lparr>attr_name = ''data-x'', attr_value = ''y'', attr_raw = ''data-x=y''\<rparr>
       \<in> set [\<lparr>attr_name = ''data-x'', attr_value = ''y'', attr_raw = ''data-x=y''\<rparr>]"
proof -
  let ?a = "\<lparr>attr_name = ''data-x'', attr_value = ''y'', attr_raw = ''data-x=y''\<rparr>"
  let ?el = "\<lparr>nodeName = ''div'',
         attributes = [?a, \<lparr>attr_name = ''id'', attr_value = ''z'', attr_raw = ''id=z''\<rparr>],
         raw = ''<div data-x=y id=z>''\<rparr>"
  let ?attrs = "JObj [(''data-x'', JNum 0), (''id'', JBool True)]"
  have mem: "?a \<in> set (attributes ?el)" by simp
  have falsy: "\<not> truthy (getProp ?attrs (ruleKey (attr_name ?a)))
         \<or> typeof (getProp ?attrs (ruleKey (attr_name ?a))) \<notin> {''boolean'', ''string'', ''object''}"
    by (simp add: ruleKey_def attrMap_def inheritedKey_def)
  have run: "filterAttributes ?el ?attrs
      = Inr \<lparr>nodeName = ''div'', attributes = [?a], raw = ''<div data-x=y>''\<rparr>"
    by code_simp
  show ?thesis
    using falsy_or_unrecognized_matcher_keeps [OF mem falsy] run by simp
qed

text \<open>
  C8, on the text, away from the defect. When every value of the rule set is falsy or of
  an unrecognised type, no attribute is filtered and no fault is raised; on a string
  without a dollar sign \<^verbatim>\<open>filterHtmlAttrs\<close> then returns the string as it is.
\<close>

lemma filterHtmlAttrs_forEach_all_kept:
  assumes "\<And>n as a. keepAttribute n as attrs a = Inr True"
    and "\<And>e. e \<in> set els \<Longrightarrow> CHR ''$'' \<notin> set (raw e)"
    and "\<And>e a. e \<in> set els \<Longrightarrow> a \<in> set (attributes e) \<Longrightarrow> CHR ''$'' \<notin> set (attr_raw a)"
  shows "filterHtmlAttrs_forEach attrs els h = Inr h"
  using assms(2,3)
proof (induction els)
  case Nil
  show ?case by simp
next
  case (Cons e els)
  let ?j = "join (map attr_raw (attributes e))"
  have "CHR ''$'' \<notin> set ?j"
    using set_join [of "map attr_raw (attributes e)"] Cons.prems(2) [of e] by auto
  then have "replace (raw e) ?j ?j = raw e" by (rule replace_same)
  moreover have "filterE (keepAttribute (nodeName e) (attributes e) attrs) (attributes e)
                   = Inr (attributes e)"
    by (intro filterE_all assms(1))
  ultimately have fa: "filterAttributes e attrs
      = Inr \<lparr>nodeName = nodeName e, attributes = attributes e, raw = raw e\<rparr>"
    by (simp add: filterAttributes_def)
  have "replace h (raw e) (raw e) = h"
    using Cons.prems(1) [of e] by (intro replace_same) simp
  moreover have "filterHtmlAttrs_forEach attrs els h = Inr h"
    using Cons.prems by (intro Cons.IH) auto
  ultimately show ?case using fa by simp
qed

lemma filterHtmlAttrs_falsy_or_unrecognized_plain:
  assumes "\<And>k. \<not> truthy (getProp attrs k)
               \<or> typeof (getProp attrs k) \<notin> {''boolean'', ''string'', ''object''}"
    and "CHR ''$'' \<notin> set s"
  shows "filterHtmlAttrs s attrs = Inr s"
proof (cases "truthy attrs")
  case False
  then show ?thesis by (simp add: filterHtmlAttrs_def)
next
  case True
  have keep: "keepAttribute n as attrs a = Inr True" for n as a
  proof (cases "truthy (getProp attrs (ruleKey (attr_name a)))")
    case False
    then show ?thesis by (simp add: keepAttribute_def)
  next
    case True
    then have "typeof (getProp attrs (ruleKey (attr_name a))) \<notin> {''boolean'', ''string'', ''object''}"
      using assms(1) [of "ruleKey (attr_name a)"] by simp
    then have "matches n as (attr_value a) (getProp attrs (ruleKey (attr_name a))) = Inr JUndefined"
      by (cases "getProp attrs (ruleKey (attr_name a))") simp_all
    then show ?thesis by (simp add: keepAttribute_def Let_def)
  qed
  have "filterHtmlAttrs_forEach attrs (parseElements s) s = Inr s"
  proof (rule filterHtmlAttrs_forEach_all_kept [OF keep])
    fix e assume "e \<in> set (parseElements s)"
    then show "CHR ''$'' \<notin> set (raw e)" using parseElements_raw(2) assms(2) by blast
  next
    fix e a assume "e \<in> set (parseElements s)" and "a \<in> set (attributes e)"
    then show "CHR ''$'' \<notin> set (attr_raw a)" using parseElements_attr_raw assms(2) by blast
  qed
  then show ?thesis using True by (simp add: filterHtmlAttrs_def)
qed

text \<open>
  C8 as stated fails at \<^verbatim>\<open><div data-x="$$">\<close> with \<^verbatim>\<open>{'data-x': 0}\<close>. The matcher \<^verbatim>\<open>0\<close> is
  falsy, the callback keeps the one attribute of the one element and nothing is filtered;
  yet the text of the kept attribute is passed to \<^verbatim>\<open>replace\<close> as the replacement, where
  \<^verbatim>\<open>$$\<close> stands for one dollar sign, and \<^verbatim>\<open>filterHtmlAttrs\<close> returns \<^verbatim>\<open><div data-x="$">\<close>: the
  attribute is not kept unchanged.
\<close>

theorem C8_falsy_matcher_dollar:
  "parseElements ''<div data-x=\"$$\">''
     = [\<lparr>nodeName = ''div'',
         attributes = [\<lparr>attr_name = ''data-x'', attr_value = ''$$'', attr_raw = ''data-x=\"$$\"''\<rparr>],
         raw = ''<div data-x=\"$$\">''\<rparr>]
   \<and> keepAttribute ''div''
        [\<lparr>attr_name = ''data-x'', attr_value = ''$$'', attr_raw = ''data-x=\"$$\"''\<rparr>]
        (JObj [(''data-x'', JNum 0)])
        \<lparr>attr_name = ''data-x'', attr_value = ''$$'', attr_raw = ''data-x=\"$$\"''\<rparr> = Inr True
   \<and> filterHtmlAttrs ''<div data-x=\"$$\">'' (JObj [(''data-x'', JNum 0)])
        = Inr ''<div data-x=\"$\">''"
  by code_simp

text \<open>
  The fault of another rule is the fault of the whole call: in \<^verbatim>\<open><div a b>\<close> under
  \<^verbatim>\<open>{a: 0, b: {attributes: {b: null}}}\<close> the matcher of \<^verbatim>\<open>a\<close> is falsy, and the call throws
  on the \<^verbatim>\<open>null\<close> that the matcher of \<^verbatim>\<open>b\<close> holds.
\<close>

lemma falsy_matcher_fault_elsewhere:
  "filterHtmlAttrs ''<div a b>''
     (JObj [(''a'', JNum 0), (''b'', JObj [(''attributes'', JObj [(''b'', JNull)])])])
     = Inl TypeError"
  by code_simp

subsection \<open>C9\<close>




subsection \<open>C10\<close>

text \<open>
  C10. With the empty object \<^verbatim>\<open>{}\<close> as matcher, \<^verbatim>\<open>matches\<close> returns \<^verbatim>\<open>true\<close> for every node
  name, attribute list and value, so a rule whose matcher is \<^verbatim>\<open>{}\<close> drops the attribute it
  governs, as the matcher \<^verbatim>\<open>true\<close> does.
\<close>

theorem C10_empty_structured_matcher:
  "matches nodeName' attributes' value' (JObj []) = Inr (JBool True)
   \<and> (getProp attrs (ruleKey (attr_name a)) = JObj []
        \<longrightarrow> keepAttribute nodeName' attributes' attrs a = Inr False)
   \<and> (getProp attrs (ruleKey (attr_name a)) = JBool True
        \<longrightarrow> keepAttribute nodeName' attributes' attrs a = Inr False)"
  by (simp add: keepAttribute_def)

text \<open>
  C10, witness: \<^verbatim>\<open><div id="y">\<close> under \<^verbatim>\<open>{id: {}}\<close> loses \<^verbatim>\<open>id\<close>.
\<close>

theorem C10_witness:
  "matches ''div'' [] ''y'' (JObj []) = Inr (JBool True)
   \<and> getProp (JObj [(''id'', JObj [])]) (ruleKey ''id'') = JObj []
   \<and> keepAttribute ''div'' [] (JObj [(''id'', JObj [])])
        \<lparr>attr_name = ''id'', attr_value = ''y'', attr_raw = ''id=\"y\"''\<rparr> = Inr False
   \<and> filterHtmlAttrs ''<div id=\"y\">'' (JObj [(''id'', JObj [])]) = Inr ''<div >''"
proof -
  have run: "filterHtmlAttrs ''<div id=\"y\">'' (JObj [(''id'', JObj [])]) = Inr ''<div >''"
    by code_simp
  show ?thesis
    using C10_empty_structured_matcher [of "''div''" "[]" "''y''" "JObj [(''id'', JObj [])]"
      "\<lparr>attr_name = ''id'', attr_value = ''y'', attr_raw = ''id=\"y\"''\<rparr>"] run
    by (simp add: ruleKey_def attrMap_def inheritedKey_def)
qed

end
